theory Spec2Isabelle
  imports Complex_Main "HOL-Library.Word"
begin

section \<open>Data model of package dom\<close>

text \<open>
  Go's \<open>float64\<close> coordinates are modelled as exact reals and Go's \<open>int\<close> as
  \<open>int\<close>; where the annotation code does arithmetic on configuration values the
  64-bit wrap-around is written out (\<open>i64\<close> below). The types \<open>BoundingBox\<close>,
  \<open>Element\<close> and \<open>ElementMap\<close> are declared in a file of package dom that is
  not among the sources; their fields are the ones \<open>enhanced.go\<close> reads and writes.
\<close>

datatype error = Error string

record BoundingBox =
  X :: real
  Y :: real
  Width :: real
  Height :: real

record Element =
  TagName :: string
  Role :: string
  Name :: string
  Text :: string
  Type :: string
  Href :: string
  Placeholder :: string
  AriaLabel :: string
  IsVisible :: bool
  IsEnabled :: bool
  IsInteractive :: bool
  IsFocusable :: bool
  Selector :: string
  BoundingBox :: BoundingBox
  Index :: int
  Element_BackendNodeID :: int

text \<open>
  \<open>EnhancedElement\<close> embeds \<open>Element\<close>. Both structs have a field
  \<open>BackendNodeID\<close>; on an \<open>*EnhancedElement\<close> the name selects the outer one,
  on an \<open>*Element\<close> the embedded one (\<open>Element_BackendNodeID\<close> here). The
  accessibility and scroll-size fields are left out: no function modelled below reads them.
\<close>

record EnhancedElement = Element +
  BackendNodeID :: int
  PaintOrder :: int
  IsNew :: bool
  IsScrollable :: bool
  IsOccluded :: bool
  IsContained :: bool

text \<open>
  Elements are heap objects handled through pointers. The heap is the list of allocated
  \<open>EnhancedElement\<close> cells and a pointer is a position in it; a pointer
  \<open>&el.Element\<close> to the embedded struct is the pointer to its cell, read through the
  \<open>Element\<close> fields.
\<close>

type_synonym heap = "EnhancedElement list"

record EnhancedElementMap =
  PageURL :: string
  PageTitle :: string
  Elements :: "nat list"
  indexMap :: "int \<rightharpoonup> nat"
  BackendNodeMap :: "int \<rightharpoonup> nat"
  PreviousNodeIDs :: "int \<rightharpoonup> bool"
  TotalElements :: int
  FilteredByPaint :: int
  FilteredByContain :: int
  FilteredByHidden :: int

text \<open>The basic map returned by the JavaScript extraction (\<open>ExtractElementMap\<close>).\<close>

record ElementMap =
  basicPageURL :: string
  basicPageTitle :: string
  basicElements :: "Element list"

definition NewEnhancedElementMap :: EnhancedElementMap where
  "NewEnhancedElementMap =
     \<lparr>PageURL = [], PageTitle = [], Elements = [], indexMap = Map.empty,
      BackendNodeMap = Map.empty, PreviousNodeIDs = Map.empty,
      TotalElements = 0, FilteredByPaint = 0, FilteredByContain = 0, FilteredByHidden = 0\<rparr>"

definition AddEnhanced :: "heap \<Rightarrow> EnhancedElementMap \<Rightarrow> nat \<Rightarrow> EnhancedElementMap" where
  "AddEnhanced h m el =
     m\<lparr>Elements := Elements m @ [el],
       indexMap := (indexMap m)(Index (h ! el) \<mapsto> el),
       BackendNodeMap :=
         (if BackendNodeID (h ! el) > 0
          then (BackendNodeMap m)(BackendNodeID (h ! el) \<mapsto> el)
          else BackendNodeMap m)\<rparr>"

definition ByBackendNodeID :: "EnhancedElementMap \<Rightarrow> int \<Rightarrow> nat option" where
  "ByBackendNodeID m nodeID = BackendNodeMap m nodeID"

section \<open>Extraction: filtering, indexing, fallback\<close>

text \<open>
  One iteration of the loop \<open>for _, el := range elements\<close> of
  \<open>ExtractEnhancedElementMap\<close>. The state is the running \<open>index\<close>, the heap and
  the map under construction; \<open>hasPrevious\<close> is \<open>previousMap != nil\<close>.
\<close>

definition extractStep ::
  "bool \<Rightarrow> nat \<Rightarrow> int \<times> heap \<times> EnhancedElementMap \<Rightarrow> int \<times> heap \<times> EnhancedElementMap" where
  "extractStep hasPrevious el s =
     (case s of (index, h, m) \<Rightarrow>
        if \<not> IsInteractive (h ! el) \<or> \<not> IsVisible (h ! el)
        then (index, h, m\<lparr>FilteredByHidden := FilteredByHidden m + 1\<rparr>)
        else if IsOccluded (h ! el)
        then (index, h, m\<lparr>FilteredByPaint := FilteredByPaint m + 1\<rparr>)
        else if IsContained (h ! el)
        then (index, h, m\<lparr>FilteredByContain := FilteredByContain m + 1\<rparr>)
        else
          let h1 = h[el := (h ! el)\<lparr>Index := index\<rparr>];
              h2 = (if PreviousNodeIDs m (BackendNodeID (h1 ! el)) = None \<and> hasPrevious
                    then h1[el := (h1 ! el)\<lparr>IsNew := True\<rparr>] else h1)
          in (index + 1, h2, AddEnhanced h2 m el))"

fun extractLoop ::
  "bool \<Rightarrow> nat list \<Rightarrow> int \<times> heap \<times> EnhancedElementMap \<Rightarrow> int \<times> heap \<times> EnhancedElementMap" where
  "extractLoop hasPrevious [] s = s"
| "extractLoop hasPrevious (el # els) s = extractLoop hasPrevious els (extractStep hasPrevious el s)"

text \<open>
  \<open>extractEnhancedElementMapJS\<close>: every basic element is copied into a freshly
  allocated enhanced element whose other fields keep their zero values.
\<close>

definition wrapBasic :: "Element \<Rightarrow> EnhancedElement" where
  "wrapBasic el =
     \<lparr>TagName = TagName el, Role = Role el, Name = Name el, Text = Text el, Type = Type el,
      Href = Href el, Placeholder = Placeholder el, AriaLabel = AriaLabel el,
      IsVisible = IsVisible el, IsEnabled = IsEnabled el, IsInteractive = IsInteractive el,
      IsFocusable = IsFocusable el, Selector = Selector el, BoundingBox = BoundingBox el,
      Index = Index el, Element_BackendNodeID = Element_BackendNodeID el,
      BackendNodeID = Element_BackendNodeID el, PaintOrder = 0, IsNew = False,
      IsScrollable = False, IsOccluded = False, IsContained = False\<rparr>"

fun wrapLoop :: "Element list \<Rightarrow> heap \<times> EnhancedElementMap \<Rightarrow> heap \<times> EnhancedElementMap" where
  "wrapLoop [] s = s"
| "wrapLoop (el # els) (h, m) =
     (let h' = h @ [wrapBasic el] in wrapLoop els (h', AddEnhanced h' m (length h)))"

definition extractEnhancedElementMapJS ::
  "error + ElementMap \<Rightarrow> EnhancedElementMap \<Rightarrow> error + heap \<times> EnhancedElementMap" where
  "extractEnhancedElementMapJS basic elementMap =
     (case basic of
        Inl err \<Rightarrow> Inl err
      | Inr basicMap \<Rightarrow>
          Inr (wrapLoop (basicElements basicMap)
                 ([], elementMap\<lparr>PageURL := basicPageURL basicMap,
                                 PageTitle := basicPageTitle basicMap\<rparr>)))"

text \<open>
  \<open>ExtractEnhancedElementMap\<close>. The results of the calls that leave the program are
  arguments: \<open>info\<close> is the result of \<open>page.Info()\<close>, \<open>snapshotErr\<close> the error of the
  snapshot call, \<open>parsed\<close> what \<open>parseSnapshotResponse\<close> returns on the snapshot
  data and \<open>basic\<close> what the JavaScript extraction returns. The elements returned by
  the parser are distinct freshly allocated objects: they are the initial heap, and the loop
  visits the pointers \<open>0, 1, \<dots>\<close> in order.
\<close>

definition ExtractEnhancedElementMap ::
  "(string \<times> string) option \<Rightarrow> EnhancedElementMap option \<Rightarrow> error option \<Rightarrow>
   error + EnhancedElement list \<Rightarrow> error + ElementMap \<Rightarrow> error + heap \<times> EnhancedElementMap" where
  "ExtractEnhancedElementMap info previousMap snapshotErr parsed basic =
     (let m0 = (case info of
                  None \<Rightarrow> NewEnhancedElementMap
                | Some (url, title) \<Rightarrow> NewEnhancedElementMap\<lparr>PageURL := url, PageTitle := title\<rparr>);
          elementMap = (case previousMap of
                  None \<Rightarrow> m0
                | Some prev \<Rightarrow>
                    m0\<lparr>PreviousNodeIDs :=
                         (\<lambda>nodeID. case BackendNodeMap prev nodeID of
                                      None \<Rightarrow> None | Some _ \<Rightarrow> Some True)\<rparr>)
      in if snapshotErr \<noteq> None then extractEnhancedElementMapJS basic elementMap
         else case parsed of
                Inl err \<Rightarrow> extractEnhancedElementMapJS basic elementMap
              | Inr elements \<Rightarrow>
                  (case extractLoop (previousMap \<noteq> None) [0..<length elements]
                          (0, elements, elementMap) of
                     (index, h, m) \<Rightarrow> Inr (h, m\<lparr>TotalElements := int (length elements)\<rparr>)))"

section \<open>Occlusion and containment passes\<close>

text \<open>
  \<open>parseSnapshotResponse\<close> sorts the candidates with
  \<open>sort.Slice(elements, PaintOrder(i) > PaintOrder(j))\<close> and then runs
  \<open>markOccludedElements\<close> and \<open>markContainedElements\<close> on the sorted slice. The
  slice holds pointers to distinct objects and the passes only set the flags
  \<open>IsOccluded\<close> and \<open>IsContained\<close>, so a pass is a function from the list of
  elements to the list with the flags updated.
\<close>

record interactiveConfig =
  MinClickableSize :: int
  IconSizeMin :: int
  IconSizeMax :: int
  ContainmentThreshold :: real

definition defaultInteractiveConfig :: interactiveConfig where
  "defaultInteractiveConfig =
     \<lparr>MinClickableSize = 5, IconSizeMin = 10, IconSizeMax = 50, ContainmentThreshold = 0.99\<rparr>"

definition isContainedWithin :: "BoundingBox \<Rightarrow> BoundingBox \<Rightarrow> real \<Rightarrow> bool" where
  "isContainedWithin inner outer threshold =
     (let x1 = max (X inner) (X outer);
          y1 = max (Y inner) (Y outer);
          x2 = min (X inner + Width inner) (X outer + Width outer);
          y2 = min (Y inner + Height inner) (Y outer + Height outer)
      in if x2 \<le> x1 \<or> y2 \<le> y1 then False
         else let intersectionArea = (x2 - x1) * (y2 - y1);
                  innerArea = Width inner * Height inner
              in if innerArea \<le> 0 then False
                 else intersectionArea / innerArea \<ge> threshold)"

definition isSignificantlyOccluded :: "BoundingBox \<Rightarrow> BoundingBox \<Rightarrow> bool" where
  "isSignificantlyOccluded target occluder =
     (let x1 = max (X target) (X occluder);
          y1 = max (Y target) (Y occluder);
          x2 = min (X target + Width target) (X occluder + Width occluder);
          y2 = min (Y target + Height target) (Y occluder + Height occluder)
      in if x2 \<le> x1 \<or> y2 \<le> y1 then False
         else let intersectionArea = (x2 - x1) * (y2 - y1);
                  targetArea = Width target * Height target
              in intersectionArea / targetArea \<ge> 0.9)"

text \<open>
  The inner loop \<open>for j := 0; j < i; j++\<close> of \<open>markOccludedElements\<close>, entered
  at \<open>j\<close>: \<open>Some j\<close> is the position at which the loop sets the flag and breaks,
  \<open>None\<close> means that it ran to the end. \<open>markOccludedFrom\<close> is the outer loop
  \<open>for i, el := range elements\<close> entered at \<open>i\<close>.
\<close>

function occluderScan :: "EnhancedElement list \<Rightarrow> nat \<Rightarrow> nat \<Rightarrow> nat option" where
  "occluderScan elements i j =
     (if j < i then
        (let higher = elements ! j in
         if Width (BoundingBox higher) \<le> 0 \<or> Height (BoundingBox higher) \<le> 0
         then occluderScan elements i (j + 1)
         else if isSignificantlyOccluded (BoundingBox (elements ! i)) (BoundingBox higher)
         then Some j
         else occluderScan elements i (j + 1))
      else None)"
  by pat_completeness auto

termination
  by (relation "measure (\<lambda>(elements, i, j). i - j)") auto

function markOccludedFrom :: "nat \<Rightarrow> EnhancedElement list \<Rightarrow> EnhancedElement list" where
  "markOccludedFrom i elements =
     (if i < length elements then
        (let el = elements ! i in
         if Width (BoundingBox el) \<le> 0 \<or> Height (BoundingBox el) \<le> 0
         then markOccludedFrom (i + 1) elements
         else (case occluderScan elements i 0 of
                 Some j \<Rightarrow> markOccludedFrom (i + 1) (elements[i := el\<lparr>IsOccluded := True\<rparr>])
               | None \<Rightarrow> markOccludedFrom (i + 1) elements))
      else elements)"
  by pat_completeness auto

termination
  by (relation "measure (\<lambda>(i, elements). length elements - i)") auto

definition markOccludedElements :: "EnhancedElement list \<Rightarrow> EnhancedElement list" where
  "markOccludedElements elements = markOccludedFrom 0 elements"

text \<open>
  The inner loop \<open>for j, potential := range elements\<close> of
  \<open>markContainedElements\<close>, entered at \<open>j\<close>, and the outer loop entered at
  \<open>i\<close>.
\<close>

function containerScan :: "EnhancedElement list \<Rightarrow> nat \<Rightarrow> nat \<Rightarrow> nat option" where
  "containerScan elements i j =
     (if j < length elements then
        (let el = elements ! i; potential = elements ! j in
         if i = j \<or> \<not> IsInteractive potential
         then containerScan elements i (j + 1)
         else if Width (BoundingBox potential) \<le> 0 \<or> Height (BoundingBox potential) \<le> 0
         then containerScan elements i (j + 1)
         else if isContainedWithin (BoundingBox el) (BoundingBox potential)
                   (ContainmentThreshold defaultInteractiveConfig)
         then (let elArea = Width (BoundingBox el) * Height (BoundingBox el);
                   parentArea = Width (BoundingBox potential) * Height (BoundingBox potential)
               in if elArea < parentArea then Some j
                  else containerScan elements i (j + 1))
         else containerScan elements i (j + 1))
      else None)"
  by pat_completeness auto

termination
  by (relation "measure (\<lambda>(elements, i, j). length elements - j)") auto

function markContainedFrom :: "nat \<Rightarrow> EnhancedElement list \<Rightarrow> EnhancedElement list" where
  "markContainedFrom i elements =
     (if i < length elements then
        (let el = elements ! i in
         if Width (BoundingBox el) \<le> 0 \<or> Height (BoundingBox el) \<le> 0
         then markContainedFrom (i + 1) elements
         else (case containerScan elements i 0 of
                 Some j \<Rightarrow> markContainedFrom (i + 1) (elements[i := el\<lparr>IsContained := True\<rparr>])
               | None \<Rightarrow> markContainedFrom (i + 1) elements))
      else elements)"
  by pat_completeness auto

termination
  by (relation "measure (\<lambda>(i, elements). length elements - i)") auto


subsection \<open>Geometry in the words of the specification\<close>

text \<open>
  The specification speaks of the area of a box, of the axis-aligned intersection area of two
  boxes and of non-empty bounds. These definitions follow its words; the theorems compare
  them with \<open>isContainedWithin\<close> and \<open>isSignificantlyOccluded\<close> above.
\<close>

definition area :: "BoundingBox \<Rightarrow> real" where
  "area b = Width b * Height b"

definition intersectionArea :: "BoundingBox \<Rightarrow> BoundingBox \<Rightarrow> real" where
  "intersectionArea a b =
     (let x1 = max (X a) (X b); y1 = max (Y a) (Y b);
          x2 = min (X a + Width a) (X b + Width b);
          y2 = min (Y a + Height a) (Y b + Height b)
      in if x2 \<le> x1 \<or> y2 \<le> y1 then 0 else (x2 - x1) * (y2 - y1))"

definition nonEmpty :: "BoundingBox \<Rightarrow> bool" where
  "nonEmpty b \<longleftrightarrow> \<not> (Width b \<le> 0 \<or> Height b \<le> 0)"

text \<open>
  Notions used in the proofs about the passes: two lists agree on everything a scan reads;
  position \<open>j\<close> makes the scan for element \<open>i\<close> stop.
\<close>

definition sameGeometry :: "EnhancedElement list \<Rightarrow> EnhancedElement list \<Rightarrow> bool" where
  "sameGeometry es es' \<longleftrightarrow>
     length es' = length es \<and>
     (\<forall>k. BoundingBox (es' ! k) = BoundingBox (es ! k) \<and>
          IsInteractive (es' ! k) = IsInteractive (es ! k))"

declare occluderScan.simps [simp del] markOccludedFrom.simps [simp del]
  containerScan.simps [simp del] markContainedFrom.simps [simp del]


definition occludesAt :: "EnhancedElement list \<Rightarrow> nat \<Rightarrow> nat \<Rightarrow> bool" where
  "occludesAt es i j \<longleftrightarrow>
     nonEmpty (BoundingBox (es ! j)) \<and>
     isSignificantlyOccluded (BoundingBox (es ! i)) (BoundingBox (es ! j))"

subsection \<open>Example candidates\<close>

text \<open>
  \<open>paintOrderDescending\<close> is the order \<open>sort.Slice\<close> establishes: no element
  is followed by one of higher paint order. The example elements are a link, a wrapper with
  the same box and the same paint order, and an icon inside a button.
\<close>

definition paintOrderDescending :: "EnhancedElement list \<Rightarrow> bool" where
  "paintOrderDescending es = sorted_wrt (\<lambda>a b. PaintOrder a \<ge> PaintOrder b) es"

definition exampleLink :: EnhancedElement where
  "exampleLink =
     \<lparr>TagName = ''a'', Role = [], Name = [], Text = ''Next'', Type = [], Href = ''/x'',
      Placeholder = [], AriaLabel = [], IsVisible = True, IsEnabled = True,
      IsInteractive = True, IsFocusable = False, Selector = [],
      BoundingBox = \<lparr>X = 10, Y = 20, Width = 80, Height = 24\<rparr>,
      Index = 0, Element_BackendNodeID = 0,
      BackendNodeID = 7, PaintOrder = 10, IsNew = False, IsScrollable = False,
      IsOccluded = False, IsContained = False\<rparr>"

definition tiedWrapper :: EnhancedElement where
  "tiedWrapper = exampleLink\<lparr>TagName := ''div'', Text := [], Href := [], IsInteractive := False,
                             BackendNodeID := 8\<rparr>"



subsection \<open>Notions used in the proofs about extraction\<close>

text \<open>
  \<open>survives\<close> is the negation of the three \<open>continue\<close> tests of the loop,
  \<open>indexed\<close> what the loop body writes into a surviving element, \<open>addBackend\<close>
  the update \<open>AddEnhanced\<close> makes to the backend-node table, \<open>filtered\<close> the sum of
  the three counters and \<open>initialMap\<close> the map as it stands before the snapshot is
  looked at.
\<close>

definition survives :: "heap \<Rightarrow> nat \<Rightarrow> bool" where
  "survives h a \<longleftrightarrow>
     IsInteractive (h ! a) \<and> IsVisible (h ! a) \<and> \<not> IsOccluded (h ! a) \<and> \<not> IsContained (h ! a)"

definition indexed :: "bool \<Rightarrow> (int \<rightharpoonup> bool) \<Rightarrow> int \<Rightarrow> EnhancedElement \<Rightarrow> EnhancedElement" where
  "indexed p prevIDs i e = e\<lparr>Index := i, IsNew := (IsNew e \<or> (prevIDs (BackendNodeID e) = None \<and> p))\<rparr>"

definition addBackend :: "heap \<Rightarrow> (int \<rightharpoonup> nat) \<Rightarrow> nat \<Rightarrow> (int \<rightharpoonup> nat)" where
  "addBackend h bm a = (if BackendNodeID (h ! a) > 0 then bm(BackendNodeID (h ! a) \<mapsto> a) else bm)"

definition filtered :: "EnhancedElementMap \<Rightarrow> int" where
  "filtered m = FilteredByHidden m + FilteredByPaint m + FilteredByContain m"

definition initialMap :: "(string \<times> string) option \<Rightarrow> EnhancedElementMap option \<Rightarrow> EnhancedElementMap" where
  "initialMap info previousMap =
     (let m0 = (case info of
                  None \<Rightarrow> NewEnhancedElementMap
                | Some (url, title) \<Rightarrow> NewEnhancedElementMap\<lparr>PageURL := url, PageTitle := title\<rparr>)
      in case previousMap of
           None \<Rightarrow> m0
         | Some prev \<Rightarrow>
             m0\<lparr>PreviousNodeIDs :=
                  (\<lambda>nodeID. case BackendNodeMap prev nodeID of
                               None \<Rightarrow> None | Some _ \<Rightarrow> Some True)\<rparr>)"

subsection \<open>Example runs\<close>

text \<open>
  Four runs of the extraction: one with a hidden candidate, one with two candidates carrying
  the same backend node id, one against a previous map, and one on the fallback path.
\<close>

definition exampleButton :: EnhancedElement where
  "exampleButton =
     exampleLink\<lparr>TagName := ''button'', Text := ''Go'', Href := [],
                   BoundingBox := \<lparr>X = 200, Y = 20, Width = 80, Height = 24\<rparr>\<rparr>"

definition exampleHidden :: EnhancedElement where
  "exampleHidden = exampleLink\<lparr>IsVisible := False, BackendNodeID := 3\<rparr>"

definition exampleFresh :: EnhancedElement where
  "exampleFresh = exampleButton\<lparr>BackendNodeID := 9\<rparr>"

definition examplePrevious :: EnhancedElementMap where
  "examplePrevious = NewEnhancedElementMap\<lparr>BackendNodeMap := [7 \<mapsto> 0]\<rparr>"

definition exampleBasic :: Element where
  "exampleBasic =
     \<lparr>TagName = ''a'', Role = [], Name = [], Text = ''Next'', Type = [], Href = ''/x'',
      Placeholder = [], AriaLabel = [], IsVisible = True, IsEnabled = True,
      IsInteractive = True, IsFocusable = False, Selector = [],
      BoundingBox = \<lparr>X = 10, Y = 20, Width = 80, Height = 24\<rparr>,
      Index = 0, Element_BackendNodeID = 5\<rparr>"

definition filteredRun :: "error + heap \<times> EnhancedElementMap" where
  "filteredRun = ExtractEnhancedElementMap None None None
                   (Inr [exampleHidden, exampleLink, exampleButton]) (Inl (Error []))"

definition duplicateRun :: "error + heap \<times> EnhancedElementMap" where
  "duplicateRun = ExtractEnhancedElementMap None None None
                    (Inr [exampleLink, exampleButton]) (Inl (Error []))"

definition diffRun :: "error + heap \<times> EnhancedElementMap" where
  "diffRun = ExtractEnhancedElementMap None (Some examplePrevious) None
               (Inr [exampleLink, exampleFresh]) (Inl (Error []))"

definition fallbackRun :: "error + heap \<times> EnhancedElementMap" where
  "fallbackRun = ExtractEnhancedElementMap None (Some NewEnhancedElementMap)
                   (Some (Error ''snapshot failed'')) (Inl (Error []))
                   (Inr \<lparr>basicPageURL = [], basicPageTitle = [], basicElements = [exampleBasic]\<rparr>)"

section \<open>Attribute lookup in the snapshot parser\<close>

text \<open>
  The closure \<open>getAttr\<close> of \<open>parseSnapshotResponse\<close>. A node's attributes are a
  flat array of string-table indices, name and value alternating. \<open>attrScan\<close> is the
  loop \<open>for i := 0; i < len(attrs); i += 2\<close> on what is left of the array: a trailing
  name without a value is skipped by the test \<open>i+1 < len(attrs)\<close>, and a matching name
  whose value index is out of range does not end the search.
\<close>

fun attrScan :: "string list \<Rightarrow> string \<Rightarrow> int list \<Rightarrow> string" where
  "attrScan stringsArr attrName (nameIdx # valueIdx # attrs) =
     (if nameIdx \<ge> 0 \<and> nameIdx < int (length stringsArr) \<and> stringsArr ! nat nameIdx = attrName
      then (if valueIdx \<ge> 0 \<and> valueIdx < int (length stringsArr)
            then stringsArr ! nat valueIdx
            else attrScan stringsArr attrName attrs)
      else attrScan stringsArr attrName attrs)"
| "attrScan stringsArr attrName [nameIdx] = []"
| "attrScan stringsArr attrName [] = []"

definition getAttr :: "string list \<Rightarrow> int list list \<Rightarrow> nat \<Rightarrow> string \<Rightarrow> string" where
  "getAttr stringsArr attributes nodeIdx attrName =
     (if nodeIdx \<ge> length attributes then []
      else attrScan stringsArr attrName (attributes ! nodeIdx))"

text \<open>
  The local \<open>isEnabled\<close> of the node loop:
  \<open>getAttr(i, "disabled") == "" && getAttr(i, "aria-disabled") != "true"\<close>.
\<close>

definition isEnabled :: "string list \<Rightarrow> int list list \<Rightarrow> nat \<Rightarrow> bool" where
  "isEnabled stringsArr attributes i \<longleftrightarrow>
     getAttr stringsArr attributes i ''disabled'' = [] \<and>
     getAttr stringsArr attributes i ''aria-disabled'' \<noteq> ''true''"

text \<open>
  In the words of the specification: the node carries an attribute of the given name, whatever
  its value, when a name slot of its attribute array points at that string.
\<close>

fun carries :: "string list \<Rightarrow> string \<Rightarrow> int list \<Rightarrow> bool" where
  "carries stringsArr attrName (nameIdx # valueIdx # attrs) =
     ((nameIdx \<ge> 0 \<and> nameIdx < int (length stringsArr) \<and> stringsArr ! nat nameIdx = attrName)
      \<or> carries stringsArr attrName attrs)"
| "carries stringsArr attrName [nameIdx] = False"
| "carries stringsArr attrName [] = False"

definition carriesAttr :: "string list \<Rightarrow> int list list \<Rightarrow> nat \<Rightarrow> string \<Rightarrow> bool" where
  "carriesAttr stringsArr attributes nodeIdx attrName \<longleftrightarrow>
     nodeIdx < length attributes \<and> carries stringsArr attrName (attributes ! nodeIdx)"

text \<open>
  The snapshot of \<open><button disabled>\<close>: the string table holds the tag, the attribute
  name and the empty value of a boolean attribute.
\<close>

definition disabledButtonStrings :: "string list" where
  "disabledButtonStrings = [''BUTTON'', ''disabled'', []]"

definition disabledButtonAttributes :: "int list list" where
  "disabledButtonAttributes = [[1, 2]]"

section \<open>Go integers and formatting\<close>

text \<open>
  Go's \<open>int\<close> is a 64-bit signed integer: \<open>i64\<close> wraps the result of an addition,
  subtraction or multiplication on configuration values, indices and converted coordinates.
  \<open>goQuot\<close> is Go's integer division, which rounds toward zero (the divisors here are
  the constants 12 and 2), and \<open>goInt\<close> the conversion \<open>int(f)\<close> of a
  \<open>float64\<close>, which drops the fraction; for a value outside the 64-bit range Go leaves
  the result to the implementation, and nothing proved below depends on it.
\<close>

definition i64 :: "int \<Rightarrow> int" where
  "i64 n = (n + 2 ^ 63) mod 2 ^ 64 - 2 ^ 63"

definition goQuot :: "int \<Rightarrow> int \<Rightarrow> int" where
  "goQuot a b = sgn a * sgn b * (\<bar>a\<bar> div \<bar>b\<bar>)"

definition goInt :: "real \<Rightarrow> int" where
  "goInt f = (if f \<ge> 0 then \<lfloor>f\<rfloor> else \<lceil>f\<rceil>)"

text \<open>\<open>showInt\<close> is the verb \<open>%d\<close> of \<open>fmt.Sprintf\<close> on an \<open>int\<close>.\<close>

fun showNat :: "nat \<Rightarrow> string" where
  "showNat n = (if n < 10 then [''0123456789'' ! n]
                else showNat (n div 10) @ [''0123456789'' ! (n mod 10)])"

definition showInt :: "int \<Rightarrow> string" where
  "showInt i = (if i < 0 then CHR ''-'' # showNat (nat (- i)) else showNat (nat i))"

section \<open>Screenshot annotation (package screenshot)\<close>

record RGBA =
  R :: "8 word"
  G :: "8 word"
  B :: "8 word"
  A :: "8 word"

record AnnotationConfig =
  BorderWidth :: int
  FontSize :: int
  ShowLabels :: bool
  ShowLabelsOnlyForUnlabeled :: bool
  LinkColor :: RGBA
  ButtonColor :: RGBA
  InputColor :: RGBA
  DefaultColor :: RGBA
  LabelBgColor :: RGBA
  LabelTextColor :: RGBA

definition DefaultAnnotationConfig :: AnnotationConfig where
  "DefaultAnnotationConfig =
     \<lparr>BorderWidth = 2, FontSize = 12, ShowLabels = True, ShowLabelsOnlyForUnlabeled = False,
      LinkColor = \<lparr>R = 76, G = 175, B = 80, A = 255\<rparr>,
      ButtonColor = \<lparr>R = 33, G = 150, B = 243, A = 255\<rparr>,
      InputColor = \<lparr>R = 255, G = 152, B = 0, A = 255\<rparr>,
      DefaultColor = \<lparr>R = 156, G = 39, B = 176, A = 255\<rparr>,
      LabelBgColor = \<lparr>R = 0, G = 0, B = 0, A = 200\<rparr>,
      LabelTextColor = \<lparr>R = 255, G = 255, B = 255, A = 255\<rparr>\<rparr>"

text \<open>
  The interfaces \<open>BoundingBoxInfo\<close>, \<open>ElementInfo\<close> and
  \<open>ElementMapInterface\<close> are declared in a file that is not among the sources. A value
  of an interface is the record of what its methods return; a nil interface value is
  \<open>None\<close>.
\<close>

record BoundingBoxInfo =
  GetX :: real
  GetY :: real
  GetWidth :: real
  GetHeight :: real
  GetIsEmpty :: bool

record ElementInfo =
  GetTagName :: string
  GetRole :: string
  GetText :: string
  GetIndex :: int
  GetIsVisible :: bool
  GetBoundingBox :: BoundingBoxInfo

record ElementMapInterface =
  Len :: int
  GetElements :: "ElementInfo list"

text \<open>
  \<open>image.Rectangle\<close> and an \<open>*image.RGBA\<close>. A drawing routine is modelled by the
  sequence of calls \<open>img.Set(x, y, c)\<close> it makes, in order; \<open>setPixel\<close> is the
  library's \<open>Set\<close>, which ignores a point outside the rectangle.
\<close>

record Rectangle =
  MinX :: int
  MinY :: int
  MaxX :: int
  MaxY :: int

record Image =
  Rect :: Rectangle
  Pix :: "int \<times> int \<Rightarrow> RGBA"

type_synonym pixelWrite = "int \<times> int \<times> RGBA"

definition inRect :: "Rectangle \<Rightarrow> int \<Rightarrow> int \<Rightarrow> bool" where
  "inRect r x y \<longleftrightarrow> MinX r \<le> x \<and> x < MaxX r \<and> MinY r \<le> y \<and> y < MaxY r"

definition setPixel :: "Image \<Rightarrow> pixelWrite \<Rightarrow> Image" where
  "setPixel img w =
     (case w of (x, y, c) \<Rightarrow>
        if inRect (Rect img) x y then img\<lparr>Pix := (Pix img)((x, y) := c)\<rparr> else img)"

text \<open>
  Counting loops. \<open>forUpLe g hi v body\<close> is
  \<open>for ; g(v) && v <= hi; v++ { body(v) }\<close>, \<open>forUpLt\<close> the same with
  \<open>v < hi\<close>, and \<open>forDownGe g lo v body\<close> is
  \<open>for ; g(v) && v >= lo; v-- { body(v) }\<close>.
\<close>

function forUpLe :: "(int \<Rightarrow> bool) \<Rightarrow> int \<Rightarrow> int \<Rightarrow> (int \<Rightarrow> 'a list) \<Rightarrow> 'a list" where
  "forUpLe g hi v body = (if g v \<and> v \<le> hi then body v @ forUpLe g hi (v + 1) body else [])"
  by pat_completeness auto

termination
  by (relation "measure (\<lambda>(g, hi, v, body). nat (hi + 1 - v))") auto

function forUpLt :: "(int \<Rightarrow> bool) \<Rightarrow> int \<Rightarrow> int \<Rightarrow> (int \<Rightarrow> 'a list) \<Rightarrow> 'a list" where
  "forUpLt g hi v body = (if g v \<and> v < hi then body v @ forUpLt g hi (v + 1) body else [])"
  by pat_completeness auto

termination
  by (relation "measure (\<lambda>(g, hi, v, body). nat (hi - v))") auto

function forDownGe :: "(int \<Rightarrow> bool) \<Rightarrow> int \<Rightarrow> int \<Rightarrow> (int \<Rightarrow> 'a list) \<Rightarrow> 'a list" where
  "forDownGe g lo v body = (if g v \<and> v \<ge> lo then body v @ forDownGe g lo (v - 1) body else [])"
  by pat_completeness auto

termination
  by (relation "measure (\<lambda>(g, lo, v, body). nat (v + 1 - lo))") auto

declare forUpLe.simps [simp del] forUpLt.simps [simp del] forDownGe.simps [simp del]

definition clamp :: "int \<Rightarrow> int \<Rightarrow> int \<Rightarrow> int" where
  "clamp val min' max' = (if val < min' then min' else if val > max' then max' else val)"

definition getElementColorFromInfo :: "ElementInfo \<Rightarrow> AnnotationConfig \<Rightarrow> RGBA" where
  "getElementColorFromInfo el cfg =
     (if GetTagName el = ''a'' then LinkColor cfg
      else if GetTagName el = ''button'' then ButtonColor cfg
      else if GetTagName el \<in> set [''input'', ''textarea'', ''select''] then InputColor cfg
      else if GetRole el \<in> set [''button'', ''menuitem'', ''tab''] then ButtonColor cfg
      else if GetRole el = ''link'' then LinkColor cfg
      else if GetRole el \<in> set [''textbox'', ''combobox'', ''searchbox''] then InputColor cfg
      else DefaultColor cfg)"

definition drawBoundingBoxFromInfo ::
  "Rectangle \<Rightarrow> BoundingBoxInfo \<Rightarrow> RGBA \<Rightarrow> int \<Rightarrow> pixelWrite list" where
  "drawBoundingBoxFromInfo bounds bbox c borderWidth =
     (let x0 = clamp (goInt (GetX bbox)) (MinX bounds) (MaxX bounds - 1);
          y0 = clamp (goInt (GetY bbox)) (MinY bounds) (MaxY bounds - 1);
          x1 = clamp (goInt (GetX bbox + GetWidth bbox)) (MinX bounds) (MaxX bounds - 1);
          y1 = clamp (goInt (GetY bbox + GetHeight bbox)) (MinY bounds) (MaxY bounds - 1)
      in forUpLe (\<lambda>y. y < i64 (y0 + borderWidth)) y1 y0
           (\<lambda>y. forUpLe (\<lambda>x. True) x1 x0 (\<lambda>x. [(x, y, c)]))
         @ forDownGe (\<lambda>y. y > i64 (y1 - borderWidth)) y0 y1
           (\<lambda>y. forUpLe (\<lambda>x. True) x1 x0 (\<lambda>x. [(x, y, c)]))
         @ forUpLe (\<lambda>x. x < i64 (x0 + borderWidth)) x1 x0
           (\<lambda>x. forUpLe (\<lambda>y. True) y1 y0 (\<lambda>y. [(x, y, c)]))
         @ forDownGe (\<lambda>x. x > i64 (x1 - borderWidth)) x0 x1
           (\<lambda>x. forUpLe (\<lambda>y. True) y1 y0 (\<lambda>y. [(x, y, c)])))"

definition patterns :: "string list list" where
  "patterns =
     [[''01110'', ''10001'', ''10001'', ''10001'', ''10001'', ''10001'', ''01110''],
      [''00100'', ''01100'', ''00100'', ''00100'', ''00100'', ''00100'', ''01110''],
      [''01110'', ''10001'', ''00001'', ''00110'', ''01000'', ''10000'', ''11111''],
      [''01110'', ''10001'', ''00001'', ''00110'', ''00001'', ''10001'', ''01110''],
      [''00010'', ''00110'', ''01010'', ''10010'', ''11111'', ''00010'', ''00010''],
      [''11111'', ''10000'', ''11110'', ''00001'', ''00001'', ''10001'', ''01110''],
      [''01110'', ''10000'', ''10000'', ''11110'', ''10001'', ''10001'', ''01110''],
      [''11111'', ''00001'', ''00010'', ''00100'', ''01000'', ''01000'', ''01000''],
      [''01110'', ''10001'', ''10001'', ''01110'', ''10001'', ''10001'', ''01110''],
      [''01110'', ''10001'', ''10001'', ''01111'', ''00001'', ''00001'', ''01110'']]"

text \<open>
  \<open>drawDigit\<close>: the block painted for the cell in row \<open>row\<close> and column \<open>col\<close>
  of the pattern, and the two \<open>range\<close> loops over the rows and the cells of a row.
\<close>

definition drawCell ::
  "Rectangle \<Rightarrow> int \<Rightarrow> int \<Rightarrow> real \<Rightarrow> real \<Rightarrow> RGBA \<Rightarrow> nat \<Rightarrow> nat \<Rightarrow> pixelWrite list" where
  "drawCell bounds x y scaleX scaleY c row col =
     (let px = i64 (x + goInt (real col * scaleX));
          py = i64 (y + goInt (real row * scaleY))
      in forUpLt (\<lambda>dy. True) (goInt (real_of_int \<lceil>scaleY\<rceil>)) 0
           (\<lambda>dy. forUpLt (\<lambda>dx. True) (goInt (real_of_int \<lceil>scaleX\<rceil>)) 0
              (\<lambda>dx. let drawX = i64 (px + dx); drawY = i64 (py + dy)
                    in if drawX \<ge> MinX bounds \<and> drawX < MaxX bounds \<and>
                          drawY \<ge> MinY bounds \<and> drawY < MaxY bounds
                       then [(drawX, drawY, c)] else [])))"

definition drawDigit ::
  "Rectangle \<Rightarrow> int \<Rightarrow> int \<Rightarrow> int \<Rightarrow> int \<Rightarrow> int \<Rightarrow> RGBA \<Rightarrow> pixelWrite list" where
  "drawDigit bounds digit x y width height c =
     (if digit < 0 \<or> digit > 9 then []
      else
        let pattern = patterns ! nat digit;
            scaleX = real_of_int width / 5;
            scaleY = real_of_int height / 7
        in concat (map (\<lambda>(row, line).
                     concat (map (\<lambda>(col, ch).
                               if ch = CHR ''1''
                               then drawCell bounds x y scaleX scaleY c row col else [])
                             (enumerate 0 line)))
                   (enumerate 0 pattern)))"

text \<open>
  \<open>drawIndexLabelFromInfo\<close>. \<open>drawChars\<close> is its loop over the characters of the
  label, with the running \<open>textX\<close>.
\<close>

fun drawChars ::
  "Rectangle \<Rightarrow> string \<Rightarrow> int \<Rightarrow> int \<Rightarrow> int \<Rightarrow> int \<Rightarrow> RGBA \<Rightarrow> pixelWrite list" where
  "drawChars bounds [] textX textY charWidth charHeight c = []"
| "drawChars bounds (char # label) textX textY charWidth charHeight c =
     (if of_char char \<ge> (48::nat) \<and> of_char char \<le> (57::nat)
      then drawDigit bounds (int (of_char char) - 48) textX textY charWidth charHeight c
      else [])
     @ drawChars bounds label (i64 (textX + charWidth)) textY charWidth charHeight c"

definition drawIndexLabelFromInfo ::
  "Rectangle \<Rightarrow> int \<Rightarrow> BoundingBoxInfo \<Rightarrow> AnnotationConfig \<Rightarrow> pixelWrite list" where
  "drawIndexLabelFromInfo bounds index bbox cfg =
     (let label = showInt index;
          charWidth = goQuot (i64 (FontSize cfg * 7)) 12;
          charHeight = FontSize cfg;
          padding = 2;
          labelWidth = i64 (i64 (int (length label) * charWidth) + padding * 2);
          labelHeight = i64 (charHeight + padding * 2);
          labelX = i64 (goInt (GetX bbox + GetWidth bbox / 2) - goQuot labelWidth 2);
          labelY = i64 (i64 (goInt (GetY bbox) - labelHeight) - 2);
          labelY = (if labelY < MinY bounds then i64 (goInt (GetY bbox) + 2) else labelY);
          labelX = (if labelX < MinX bounds then MinX bounds else labelX);
          labelX = (if i64 (labelX + labelWidth) > MaxX bounds
                    then i64 (MaxX bounds - labelWidth) else labelX)
      in forUpLt (\<lambda>y. y < i64 (labelY + labelHeight)) (MaxY bounds) labelY
           (\<lambda>y. forUpLt (\<lambda>x. x < i64 (labelX + labelWidth)) (MaxX bounds) labelX
              (\<lambda>x. if x \<ge> MinX bounds \<and> y \<ge> MinY bounds
                    then [(x, y, LabelBgColor cfg)] else []))
         @ drawChars bounds label (i64 (labelX + padding)) (i64 (labelY + padding))
             charWidth charHeight (LabelTextColor cfg))"

text \<open>
  \<open>Annotate\<close>. \<open>annotateElements\<close> is its loop over the elements: the calls of
  \<open>Set\<close> made for all of them, in order. Decoding and encoding belong to Go's image
  library and are arguments: \<open>decode\<close> returns the decoded picture and the name of its
  format, \<open>encodePng\<close> and \<open>encodeJpeg\<close> the encoded bytes.
\<close>

fun annotateElements ::
  "Rectangle \<Rightarrow> AnnotationConfig \<Rightarrow> ElementInfo list \<Rightarrow> pixelWrite list" where
  "annotateElements bounds cfg [] = []"
| "annotateElements bounds cfg (el # els) =
     (let bbox = GetBoundingBox el in
      if \<not> GetIsVisible el \<or> GetIsEmpty bbox then annotateElements bounds cfg els
      else
        drawBoundingBoxFromInfo bounds bbox (getElementColorFromInfo el cfg) (BorderWidth cfg)
        @ (if ShowLabels cfg
           then (if ShowLabelsOnlyForUnlabeled cfg \<and> GetText el \<noteq> [] then []
                 else drawIndexLabelFromInfo bounds (GetIndex el) bbox cfg)
           else [])
        @ annotateElements bounds cfg els)"

definition Annotate ::
  "(8 word list \<Rightarrow> error + Image \<times> string) \<Rightarrow> (Image \<Rightarrow> error + 8 word list) \<Rightarrow>
   (Image \<Rightarrow> error + 8 word list) \<Rightarrow>
   8 word list \<Rightarrow> ElementMapInterface option \<Rightarrow> AnnotationConfig \<Rightarrow> error + 8 word list" where
  "Annotate decode encodePng encodeJpeg imgData elementMap cfg =
     (case elementMap of
        None \<Rightarrow> Inr imgData
      | Some em \<Rightarrow>
          if Len em = 0 then Inr imgData
          else case decode imgData of
                 Inl err \<Rightarrow> Inl (Error ''failed to decode image for annotation'')
               | Inr (img, format) \<Rightarrow>
                   let bounds = Rect img;
                       rgba = foldl setPixel img (annotateElements bounds cfg (GetElements em))
                   in case (if format = ''png'' then encodePng rgba else encodeJpeg rgba) of
                        Inl err \<Rightarrow> Inl (Error ''failed to encode annotated image'')
                      | Inr buf \<Rightarrow> Inr buf)"

definition AnnotateForLLM ::
  "(8 word list \<Rightarrow> error + Image \<times> string) \<Rightarrow> (Image \<Rightarrow> error + 8 word list) \<Rightarrow>
   (Image \<Rightarrow> error + 8 word list) \<Rightarrow>
   8 word list \<Rightarrow> ElementMapInterface option \<Rightarrow> error + 8 word list" where
  "AnnotateForLLM decode encodePng encodeJpeg imgData elementMap =
     Annotate decode encodePng encodeJpeg imgData elementMap
       (DefaultAnnotationConfig\<lparr>ShowLabelsOnlyForUnlabeled := False\<rparr>)"


subsection \<open>Example inputs for the annotation\<close>




definition emptyElementMap :: ElementMapInterface where
  "emptyElementMap = \<lparr>Len = 0, GetElements = []\<rparr>"

definition failingDecode :: "8 word list \<Rightarrow> error + Image \<times> string" where
  "failingDecode imgData = Inl (Error ''unknown format'')"

definition failingEncode :: "Image \<Rightarrow> error + 8 word list" where
  "failingEncode img = Inl (Error ''encoder failed'')"

section \<open>Token serialization\<close>

text \<open>
  Strings are lists of bytes, as Go's are. Two routines of \<open>ToTokenStringEnhanced\<close>
  are outside \<open>enhanced.go\<close>. \<open>truncate\<close> of package dom is not among the sources;
  it is modelled by the function of that name in the repository's example program, which for
  \<open>len(s) > maxLen\<close> returns \<open>s[:maxLen-3] + "..."\<close> (the callers pass 50 and
  80, so the slice bound is in range). \<open>quote\<close> is the verb \<open>%q\<close> of \<open>fmt.Sprintf\<close> for printable ASCII
  text with the escapes for the double quote, the backslash, newline, carriage return and tab.
\<close>

definition newline :: string where
  "newline = [CHR 0x0A]"

definition truncate :: "string \<Rightarrow> int \<Rightarrow> string" where
  "truncate s maxLen =
     (if int (length s) \<le> maxLen then s else take (nat (maxLen - 3)) s @ ''...'')"

definition quoteChar :: "char \<Rightarrow> string" where
  "quoteChar c =
     (if c = CHR 0x22 then [CHR 0x5C, CHR 0x22]
      else if c = CHR 0x5C then [CHR 0x5C, CHR 0x5C]
      else if c = CHR 0x0A then [CHR 0x5C, CHR ''n'']
      else if c = CHR 0x0D then [CHR 0x5C, CHR ''r'']
      else if c = CHR 0x09 then [CHR 0x5C, CHR ''t'']
      else [c])"

definition quote :: "string \<Rightarrow> string" where
  "quote s = CHR 0x22 # concat (map quoteChar s) @ [CHR 0x22]"

text \<open>The first loop: \<open>visibleCount\<close>.\<close>

fun countVisible :: "heap \<Rightarrow> nat list \<Rightarrow> int \<Rightarrow> int" where
  "countVisible h [] visibleCount = visibleCount"
| "countVisible h (el # els) visibleCount =
     countVisible h els (if IsVisible (h ! el) then visibleCount + 1 else visibleCount)"

text \<open>The header line, written after the lines for title and URL.\<close>

definition headerLine :: "int \<Rightarrow> int \<Rightarrow> string" where
  "headerLine maxElements visibleCount =
     (if maxElements > 0 \<and> visibleCount > maxElements
      then ''Elements ('' @ showInt maxElements @ '' of '' @ showInt visibleCount @ '' shown):'' @ newline
      else ''Elements ('' @ showInt visibleCount @ ''):'' @ newline)"

text \<open>
  The text written for one visible element. \<open>baseEl\<close> is an \<open>*Element\<close>, so
  \<open>baseEl.BackendNodeID\<close> is the field of the embedded struct.
\<close>

definition formatEntry :: "heap \<Rightarrow> EnhancedElementMap \<Rightarrow> nat \<Rightarrow> string" where
  "formatEntry h m baseEl =
     (let enhanced = BackendNodeMap m (Element_BackendNodeID (h ! baseEl));
          prefix = (case enhanced of
                      Some el \<Rightarrow> if IsNew (h ! el) then ''*'' else []
                    | None \<Rightarrow> [])
      in prefix @ ''['' @ showInt (Index (h ! baseEl)) @ ''] '' @ TagName (h ! baseEl)
         @ (if Role (h ! baseEl) \<noteq> [] \<and> Role (h ! baseEl) \<noteq> TagName (h ! baseEl)
            then '' role='' @ Role (h ! baseEl) else [])
         @ (if Name (h ! baseEl) \<noteq> [] then '' name='' @ quote (truncate (Name (h ! baseEl)) 50)
            else if Text (h ! baseEl) \<noteq> [] then '' '' @ quote (truncate (Text (h ! baseEl)) 50)
            else if AriaLabel (h ! baseEl) \<noteq> []
            then '' aria='' @ quote (truncate (AriaLabel (h ! baseEl)) 50)
            else if Placeholder (h ! baseEl) \<noteq> []
            then '' placeholder='' @ quote (truncate (Placeholder (h ! baseEl)) 50)
            else [])
         @ (if Type (h ! baseEl) \<noteq> [] then '' type='' @ Type (h ! baseEl) else [])
         @ (if Href (h ! baseEl) \<noteq> [] then '' href='' @ quote (truncate (Href (h ! baseEl)) 80)
            else [])
         @ (case enhanced of
              Some el \<Rightarrow> if IsScrollable (h ! el) then '' |SCROLL|'' else []
            | None \<Rightarrow> [])
         @ (if \<not> IsEnabled (h ! baseEl) then '' [disabled]'' else [])
         @ newline)"

text \<open>
  The second loop, with its counter \<open>count\<close>: the list of the entries it writes. An
  invisible element is skipped before the limit is tested; the \<open>break\<close> ends the loop.
\<close>

fun emitEntries :: "heap \<Rightarrow> EnhancedElementMap \<Rightarrow> int \<Rightarrow> nat list \<Rightarrow> int \<Rightarrow> string list" where
  "emitEntries h m maxElements [] count = []"
| "emitEntries h m maxElements (baseEl # els) count =
     (if \<not> IsVisible (h ! baseEl) then emitEntries h m maxElements els count
      else if maxElements > 0 \<and> count \<ge> maxElements then []
      else formatEntry h m baseEl # emitEntries h m maxElements els (count + 1))"

definition ToTokenStringEnhanced :: "heap \<Rightarrow> EnhancedElementMap \<Rightarrow> int \<Rightarrow> string" where
  "ToTokenStringEnhanced h m maxElements =
     (let visibleCount = countVisible h (Elements m) 0
      in ''Page: '' @ PageTitle m @ newline
         @ ''URL: '' @ PageURL m @ newline
         @ headerLine maxElements visibleCount
         @ concat (emitEntries h m maxElements (Elements m) 0))"

text \<open>
  The visible entries of a map in list order, and a map of three visible elements without
  name, text or link.
\<close>

definition visibleElements :: "heap \<Rightarrow> EnhancedElementMap \<Rightarrow> nat list" where
  "visibleElements h m = filter (\<lambda>el. IsVisible (h ! el)) (Elements m)"

definition unlabeledElement :: EnhancedElement where
  "unlabeledElement =
     \<lparr>TagName = ''div'', Role = [], Name = [], Text = [], Type = [], Href = [],
      Placeholder = [], AriaLabel = [], IsVisible = True, IsEnabled = True,
      IsInteractive = True, IsFocusable = False, Selector = [],
      BoundingBox = \<lparr>X = 10, Y = 20, Width = 80, Height = 24\<rparr>,
      Index = 0, Element_BackendNodeID = 0,
      BackendNodeID = 7, PaintOrder = 10, IsNew = False, IsScrollable = False,
      IsOccluded = False, IsContained = False\<rparr>"

definition threeElementHeap :: heap where
  "threeElementHeap = [unlabeledElement, unlabeledElement\<lparr>Index := 1, TagName := ''span''\<rparr>,
                       unlabeledElement\<lparr>Index := 2, TagName := ''li''\<rparr>]"

definition threeElementMap :: EnhancedElementMap where
  "threeElementMap = NewEnhancedElementMap\<lparr>Elements := [0, 1, 2]\<rparr>"

section \<open>Properties of the occlusion and containment passes\<close>

lemma sameGeometry_refl: "sameGeometry es es"
  by (simp add: sameGeometry_def)

lemma nth_update_field:
  "f e = f (xs ! i) \<Longrightarrow> f (xs[i := e] ! k) = f (xs ! k)"
  by (cases "i < length xs"; cases "k = i") (simp_all add: list_update_beyond)

lemma sameGeometry_update:
  "sameGeometry es es' \<Longrightarrow> sameGeometry es (es'[i := (es' ! i)\<lparr>IsContained := True\<rparr>])"
  "sameGeometry es es' \<Longrightarrow> sameGeometry es (es'[i := (es' ! i)\<lparr>IsOccluded := True\<rparr>])"
  by (simp_all add: sameGeometry_def nth_update_field)


lemma occluderScan_step:
  "occluderScan es i j =
     (if j < i then (if occludesAt es i j then Some j else occluderScan es i (j + 1)) else None)"
  by (subst occluderScan.simps) (auto simp: occludesAt_def nonEmpty_def Let_def)


lemma occludesAt_geometry:
  "sameGeometry es es' \<Longrightarrow> occludesAt es' i j = occludesAt es i j"
  by (simp add: occludesAt_def sameGeometry_def)


lemma occluderScan_geometry:
  assumes "sameGeometry es es'"
  shows "occluderScan es' i j = occluderScan es i j"
proof (induction "i - j" arbitrary: j)
  case 0
  then show ?case by (simp add: occluderScan_step[of es' i j] occluderScan_step[of es i j])
next
  case (Suc n)
  then have n: "n = i - (j + 1)" by simp
  show ?case
    using Suc.hyps(1)[OF n] occludesAt_geometry[OF assms, of i j]
    by (simp add: occluderScan_step[of es' i j] occluderScan_step[of es i j])
qed


lemma occluderScan_first:
  "occluderScan es i j = Some j0 \<longleftrightarrow>
     j \<le> j0 \<and> j0 < i \<and> occludesAt es i j0 \<and> (\<forall>j'. j \<le> j' \<and> j' < j0 \<longrightarrow> \<not> occludesAt es i j')"
proof (induction "i - j" arbitrary: j)
  case 0
  then show ?case by (subst occluderScan_step) auto
next
  case (Suc n)
  then have j: "j < i" and n: "n = i - (j + 1)" by simp_all
  show ?case
  proof (cases "occludesAt es i j")
    case True
    have "occluderScan es i j = Some j" using j True by (subst occluderScan_step) simp
    moreover have "(j \<le> j0 \<and> j0 < i \<and> occludesAt es i j0 \<and>
                    (\<forall>j'. j \<le> j' \<and> j' < j0 \<longrightarrow> \<not> occludesAt es i j')) \<longleftrightarrow> j0 = j"
      using True j by (metis le_neq_implies_less order_refl not_less_iff_gr_or_eq)
    ultimately show ?thesis by auto
  next
    case False
    have "occluderScan es i j = occluderScan es i (j + 1)"
      using j False by (subst occluderScan_step) simp
    moreover have "(j \<le> j0 \<and> j0 < i \<and> occludesAt es i j0 \<and>
                    (\<forall>j'. j \<le> j' \<and> j' < j0 \<longrightarrow> \<not> occludesAt es i j')) \<longleftrightarrow>
                   (j + 1 \<le> j0 \<and> j0 < i \<and> occludesAt es i j0 \<and>
                    (\<forall>j'. j + 1 \<le> j' \<and> j' < j0 \<longrightarrow> \<not> occludesAt es i j'))"
      using False by (metis Suc_eq_plus1 Suc_leD Suc_leI le_neq_implies_less)
    ultimately show ?thesis using Suc.hyps(1)[OF n] by simp
  qed
qed

lemma occluderScan_iff:
  "occluderScan es i 0 \<noteq> None \<longleftrightarrow> (\<exists>j<i. occludesAt es i j)"
proof
  assume "occluderScan es i 0 \<noteq> None"
  then obtain j0 where "occluderScan es i 0 = Some j0" by blast
  then show "\<exists>j<i. occludesAt es i j" using occluderScan_first[of es i 0 j0] by blast
next
  assume "\<exists>j<i. occludesAt es i j"
  then obtain j0 where "j0 < i \<and> occludesAt es i j0 \<and> (\<forall>j'<j0. \<not> (j' < i \<and> occludesAt es i j'))"
    using exists_least_iff[of "\<lambda>j. j < i \<and> occludesAt es i j"] by blast
  then have "occluderScan es i 0 = Some j0" using occluderScan_first[of es i 0 j0] by auto
  then show "occluderScan es i 0 \<noteq> None" by simp
qed


lemma markOccludedFrom_flag:
  assumes "sameGeometry es0 es" "t < length es"
  shows "length (markOccludedFrom k es) = length es \<and>
         (IsOccluded (markOccludedFrom k es ! t) \<longleftrightarrow>
            IsOccluded (es ! t) \<or>
            (k \<le> t \<and> nonEmpty (BoundingBox (es0 ! t)) \<and> occluderScan es0 t 0 \<noteq> None))"
  using assms
proof (induction "length es - k" arbitrary: k es)
  case 0
  then show ?case by (subst (1 2) markOccludedFrom.simps) auto
next
  case (Suc n)
  then have k: "k < length es" by simp
  have g: "BoundingBox (es ! k) = BoundingBox (es0 ! k)"
    using Suc.prems(1) by (simp add: sameGeometry_def)
  have scan: "occluderScan es k 0 = occluderScan es0 k 0"
    using Suc.prems(1) by (rule occluderScan_geometry)
  let ?marked = "es[k := (es ! k)\<lparr>IsOccluded := True\<rparr>]"
  show ?case
  proof (cases "nonEmpty (BoundingBox (es0 ! k)) \<and> occluderScan es0 k 0 \<noteq> None")
    case True
    then have unf: "markOccludedFrom k es = markOccludedFrom (k + 1) ?marked"
      using k g scan by (subst markOccludedFrom.simps) (auto simp: nonEmpty_def Let_def)
    have n: "n = length ?marked - (k + 1)" using Suc.hyps(2) by simp
    have sg: "sameGeometry es0 ?marked" using Suc.prems(1) by (rule sameGeometry_update)
    have t: "t < length ?marked" using Suc.prems(2) by simp
    show ?thesis
      unfolding unf using Suc.hyps(1)[OF n sg t] True k
      by (cases "t = k") (auto simp: nth_list_update)
  next
    case False
    then have unf: "markOccludedFrom k es = markOccludedFrom (k + 1) es"
      using k g scan by (subst markOccludedFrom.simps) (auto simp: nonEmpty_def Let_def)
    have n: "n = length es - (k + 1)" using Suc.hyps(2) by simp
    show ?thesis
      unfolding unf using Suc.hyps(1)[OF n Suc.prems] False
      by (cases "t = k") auto
  qed
qed

lemma overlap_positive_area:
  assumes "\<not> (min (X a + Width a) (X b + Width b) \<le> max (X a) (X b) \<or>
              min (Y a + Height a) (Y b + Height b) \<le> max (Y a) (Y b))"
  shows "0 < Width a * Height a"
proof -
  have "0 < Width a" and "0 < Height a" using assms by (auto simp: min_def max_def split: if_splits)
  then show ?thesis by simp
qed


lemma isSignificantlyOccluded_ratio:
  assumes "nonEmpty target"
  shows "isSignificantlyOccluded target occluder \<longleftrightarrow>
           intersectionArea target occluder / area target \<ge> 0.9"
  by (auto simp: isSignificantlyOccluded_def intersectionArea_def area_def Let_def)

lemma occluded_iff_earlier:
  assumes "i < length es" "\<not> IsOccluded (es ! i)"
  shows "IsOccluded (markOccludedElements es ! i) \<longleftrightarrow>
           nonEmpty (BoundingBox (es ! i)) \<and>
           (\<exists>j<i. nonEmpty (BoundingBox (es ! j)) \<and>
                  intersectionArea (BoundingBox (es ! i)) (BoundingBox (es ! j))
                    / area (BoundingBox (es ! i)) \<ge> 0.9)"
proof -
  have "IsOccluded (markOccludedElements es ! i) \<longleftrightarrow>
          IsOccluded (es ! i) \<or>
          (0 \<le> i \<and> nonEmpty (BoundingBox (es ! i)) \<and> occluderScan es i 0 \<noteq> None)"
    using markOccludedFrom_flag[OF sameGeometry_refl assms(1), of 0]
    unfolding markOccludedElements_def by blast
  then have "IsOccluded (markOccludedElements es ! i) \<longleftrightarrow>
          nonEmpty (BoundingBox (es ! i)) \<and> (\<exists>j<i. occludesAt es i j)"
    unfolding occluderScan_iff using assms(2) by simp
  then show ?thesis
    using isSignificantlyOccluded_ratio[of "BoundingBox (es ! i)"]
    by (auto simp: occludesAt_def)
qed



text \<open>
  Claim C2, evaluated where the code departs from it. The comment in
  \<open>markOccludedElements\<close> says that an element is checked against the elements with
  higher paint order, but the loop \<open>j < i\<close> checks it against every element placed
  before it by the sort, also one with the same paint order. Here a wrapper and a link have
  the same box and the same paint order 10: no candidate has a strictly higher paint order
  than the link, and the link is marked occluded all the same.
\<close>

theorem occlusion_tie_marks_later_element:
  "paintOrderDescending [tiedWrapper, exampleLink] \<and>
   PaintOrder tiedWrapper = PaintOrder exampleLink \<and>
   \<not> IsOccluded (markOccludedElements [tiedWrapper, exampleLink] ! 0) \<and>
   IsOccluded (markOccludedElements [tiedWrapper, exampleLink] ! 1)"
proof -
  let ?es = "[tiedWrapper, exampleLink]"
  have boxes:
    "BoundingBox tiedWrapper = \<lparr>X = 10, Y = 20, Width = 80, Height = 24\<rparr>"
    "BoundingBox exampleLink = \<lparr>X = 10, Y = 20, Width = 80, Height = 24\<rparr>"
    "\<not> IsOccluded tiedWrapper" "\<not> IsOccluded exampleLink"
    "PaintOrder tiedWrapper = 10" "PaintOrder exampleLink = 10"
    by (simp_all add: tiedWrapper_def exampleLink_def)
  have sorted: "paintOrderDescending ?es"
    by (simp add: paintOrderDescending_def boxes)
  have "\<not> IsOccluded (markOccludedElements ?es ! 0)"
    using occluded_iff_earlier[of 0 ?es] boxes by simp
  moreover have "nonEmpty (BoundingBox (?es ! 1)) \<and>
           (\<exists>j<1. nonEmpty (BoundingBox (?es ! j)) \<and>
                  intersectionArea (BoundingBox (?es ! 1)) (BoundingBox (?es ! j))
                    / area (BoundingBox (?es ! 1)) \<ge> 0.9)"
    by (simp add: boxes nonEmpty_def intersectionArea_def area_def)
  then have "IsOccluded (markOccludedElements ?es ! 1)"
    using occluded_iff_earlier[of 1 ?es] boxes by simp
  ultimately show ?thesis using sorted boxes by simp
qed

section \<open>Properties of the extraction\<close>

lemma extractStep_survives:
  "a < length h \<Longrightarrow> survives h a \<Longrightarrow>
   extractStep p a (i, h, m) =
     (i + 1, h[a := indexed p (PreviousNodeIDs m) i (h ! a)],
      AddEnhanced (h[a := indexed p (PreviousNodeIDs m) i (h ! a)]) m a)"
  by (auto simp: extractStep_def survives_def indexed_def Let_def)

lemma extractStep_filtered:
  "\<not> survives h a \<Longrightarrow>
   \<exists>m'. extractStep p a (i, h, m) = (i, h, m') \<and> Elements m' = Elements m \<and>
        indexMap m' = indexMap m \<and> BackendNodeMap m' = BackendNodeMap m \<and>
        PreviousNodeIDs m' = PreviousNodeIDs m \<and> filtered m' = filtered m + 1"
  by (auto simp: extractStep_def survives_def filtered_def)

lemma AddEnhanced_fields:
  "Elements (AddEnhanced h m a) = Elements m @ [a]"
  "BackendNodeMap (AddEnhanced h m a) = addBackend h (BackendNodeMap m) a"
  "PreviousNodeIDs (AddEnhanced h m a) = PreviousNodeIDs m"
  "filtered (AddEnhanced h m a) = filtered m"
  by (simp_all add: AddEnhanced_def addBackend_def filtered_def)

lemma survives_update_other:
  "a \<noteq> b \<Longrightarrow> survives (h[a := e]) b = survives h b"
  by (simp add: survives_def)

lemma filter_survives_update:
  assumes "a \<notin> set els" shows "filter (survives (h[a := e])) els = filter (survives h) els"
  using assms by (induction els) (auto simp: survives_update_other)

lemma extractLoop_result:
  "distinct els \<Longrightarrow> \<forall>a\<in>set els. a < length h \<Longrightarrow>
   extractLoop p els (i, h, m) = (i', h', m') \<Longrightarrow>
   i' = i + int (length (filter (survives h) els)) \<and>
   length h' = length h \<and>
   Elements m' = Elements m @ filter (survives h) els \<and>
   PreviousNodeIDs m' = PreviousNodeIDs m \<and>
   filtered m' + int (length (filter (survives h) els)) = filtered m + int (length els) \<and>
   (\<forall>a. a \<notin> set (filter (survives h) els) \<longrightarrow> h' ! a = h ! a) \<and>
   (\<forall>k < length (filter (survives h) els).
      h' ! (filter (survives h) els ! k) =
        indexed p (PreviousNodeIDs m) (i + int k) (h ! (filter (survives h) els ! k)))"
proof (induction els arbitrary: i h m)
  case Nil
  then show ?case by simp
next
  case (Cons a els)
  have a: "a < length h" "a \<notin> set els" "distinct els" using Cons.prems by auto
  show ?case
  proof (cases "survives h a")
    case True
    let ?e = "indexed p (PreviousNodeIDs m) i (h ! a)"
    let ?h = "h[a := ?e]"
    let ?m = "AddEnhanced ?h m a"
    have run: "extractLoop p els (i + 1, ?h, ?m) = (i', h', m')"
      using Cons.prems(3) extractStep_survives[OF a(1) True] by simp
    have bnd: "\<forall>b\<in>set els. b < length ?h" using Cons.prems(2) by simp
    note IH = Cons.IH[OF a(3) bnd run]
    have f: "filter (survives ?h) els = filter (survives h) els"
      using a(2) by (rule filter_survives_update)
    have cells: "\<forall>k < length (filter (survives h) (a # els)).
      h' ! (filter (survives h) (a # els) ! k) =
        indexed p (PreviousNodeIDs m) (i + int k) (h ! (filter (survives h) (a # els) ! k))"
    proof (intro allI impI)
      fix k assume k: "k < length (filter (survives h) (a # els))"
      show "h' ! (filter (survives h) (a # els) ! k) =
        indexed p (PreviousNodeIDs m) (i + int k) (h ! (filter (survives h) (a # els) ! k))"
      proof (cases k)
        case 0
        have "a \<notin> set (filter (survives ?h) els)" using a(2) by simp
        then have "h' ! a = ?h ! a" using IH by blast
        then show ?thesis using 0 True a(1) by simp
      next
        case (Suc j)
        then have j: "j < length (filter (survives h) els)" using k True by simp
        let ?b = "filter (survives h) els ! j"
        have "?b \<in> set (filter (survives h) els)" using j nth_mem by blast
        then have ba: "?b \<noteq> a" using a(2) by auto
        have "h' ! ?b = indexed p (PreviousNodeIDs ?m) (i + 1 + int j) (?h ! ?b)"
          using IH j f by simp
        then show ?thesis using Suc True ba by (simp add: AddEnhanced_fields add.commute add.left_commute)
      qed
    qed
    have frame: "\<forall>b. b \<notin> set (filter (survives h) (a # els)) \<longrightarrow> h' ! b = h ! b"
    proof (intro allI impI)
      fix b assume b: "b \<notin> set (filter (survives h) (a # els))"
      then have "b \<noteq> a" "b \<notin> set (filter (survives ?h) els)" using True f by auto
      then have "h' ! b = ?h ! b" using IH by blast
      then show "h' ! b = h ! b" using \<open>b \<noteq> a\<close> by simp
    qed
    have c1: "i' = i + int (length (filter (survives h) (a # els)))"
      using IH f True by simp
    have c2: "length h' = length h" using IH by simp
    have c3: "Elements m' = Elements m @ filter (survives h) (a # els)"
      using IH f True by (simp add: AddEnhanced_fields)
    have c4: "PreviousNodeIDs m' = PreviousNodeIDs m"
      using IH by (simp add: AddEnhanced_fields)
    have c5: "filtered m' + int (length (filter (survives h) (a # els))) =
              filtered m + int (length (a # els))"
      using IH f True by (simp add: AddEnhanced_fields)
    show ?thesis using c1 c2 c3 c4 c5 frame cells by blast
  next
    case False
    from extractStep_filtered[OF False, of p i m] obtain m1 where
      m1: "extractStep p a (i, h, m) = (i, h, m1)" "Elements m1 = Elements m"
          "PreviousNodeIDs m1 = PreviousNodeIDs m" "filtered m1 = filtered m + 1"
      by blast
    have run: "extractLoop p els (i, h, m1) = (i', h', m')"
      using Cons.prems(3) m1(1) by simp
    have bnd: "\<forall>b\<in>set els. b < length h" using Cons.prems(2) by simp
    note IH = Cons.IH[OF a(3) bnd run]
    have c1: "i' = i + int (length (filter (survives h) (a # els)))"
      using IH False by simp
    have c2: "length h' = length h" using IH by simp
    have c3: "Elements m' = Elements m @ filter (survives h) (a # els)"
      using IH False m1 by simp
    have c4: "PreviousNodeIDs m' = PreviousNodeIDs m"
      using IH m1 by simp
    have c5: "filtered m' + int (length (filter (survives h) (a # els))) =
              filtered m + int (length (a # els))"
      using IH False m1 by simp
    have c6: "\<forall>b. b \<notin> set (filter (survives h) (a # els)) \<longrightarrow> h' ! b = h ! b"
      using IH False by simp
    have c7: "\<forall>k < length (filter (survives h) (a # els)).
      h' ! (filter (survives h) (a # els) ! k) =
        indexed p (PreviousNodeIDs m) (i + int k) (h ! (filter (survives h) (a # els) ! k))"
      using IH False m1 by simp
    show ?thesis using c1 c2 c3 c4 c5 c6 c7 by blast
  qed
qed

lemma addBackend_cong:
  "BackendNodeID (h' ! a) = BackendNodeID (h ! a) \<Longrightarrow> addBackend h' bm a = addBackend h bm a"
  by (simp add: addBackend_def)

lemma foldl_addBackend_cong:
  "\<forall>a\<in>set as. BackendNodeID (h' ! a) = BackendNodeID (h ! a) \<Longrightarrow>
   foldl (addBackend h') bm as = foldl (addBackend h) bm as"
proof (induction as arbitrary: bm)
  case Nil
  then show ?case by simp
next
  case (Cons a as)
  have "addBackend h' bm a = addBackend h bm a"
    using Cons.prems by (intro addBackend_cong) simp
  moreover have "\<forall>a\<in>set as. BackendNodeID (h' ! a) = BackendNodeID (h ! a)"
    using Cons.prems by simp
  ultimately show ?case using Cons.IH by simp
qed

lemma addBackend_other:
  "BackendNodeID (h ! x) \<noteq> nodeID \<Longrightarrow> addBackend h bm x nodeID = bm nodeID"
  by (simp add: addBackend_def)

lemma foldl_addBackend_last:
  "k < length as \<Longrightarrow> BackendNodeID (h ! (as ! k)) > 0 \<Longrightarrow>
   (\<forall>k'. k < k' \<and> k' < length as \<longrightarrow> BackendNodeID (h ! (as ! k')) \<noteq> BackendNodeID (h ! (as ! k))) \<Longrightarrow>
   foldl (addBackend h) bm as (BackendNodeID (h ! (as ! k))) = Some (as ! k)"
proof (induction as rule: rev_induct)
  case Nil
  then show ?case by simp
next
  case (snoc x as)
  show ?case
  proof (cases "k < length as")
    case True
    have later: "BackendNodeID (h ! x) \<noteq> BackendNodeID (h ! (as ! k))"
      using snoc.prems(3)[rule_format, of "length as"] True by (simp add: nth_append)
    have "foldl (addBackend h) bm as (BackendNodeID (h ! (as ! k))) = Some (as ! k)"
    proof (rule snoc.IH[OF True])
      show "0 < BackendNodeID (h ! (as ! k))" using snoc.prems(2) True by (simp add: nth_append)
      show "\<forall>k'. k < k' \<and> k' < length as \<longrightarrow>
              BackendNodeID (h ! (as ! k')) \<noteq> BackendNodeID (h ! (as ! k))"
      proof (intro allI impI)
        fix k' assume "k < k' \<and> k' < length as"
        then show "BackendNodeID (h ! (as ! k')) \<noteq> BackendNodeID (h ! (as ! k))"
          using snoc.prems(3)[rule_format, of k'] True by (simp add: nth_append)
      qed
    qed
    then show ?thesis using True later by (simp add: nth_append addBackend_other)
  next
    case False
    then have "k = length as" using snoc.prems(1) by simp
    then show ?thesis using snoc.prems(2) by (simp add: addBackend_def)
  qed
qed

lemma indexed_fields:
  "BackendNodeID (indexed p ids i e) = BackendNodeID e"
  "Index (indexed p ids i e) = i"
  "IsNew (indexed p ids i e) = (IsNew e \<or> (ids (BackendNodeID e) = None \<and> p))"
  "IsInteractive (indexed p ids i e) = IsInteractive e"
  "IsVisible (indexed p ids i e) = IsVisible e"
  "IsOccluded (indexed p ids i e) = IsOccluded e"
  "IsContained (indexed p ids i e) = IsContained e"
  by (simp_all add: indexed_def)

lemma extractLoop_backend:
  "distinct els \<Longrightarrow> \<forall>a\<in>set els. a < length h \<Longrightarrow>
   extractLoop p els (i, h, m) = (i', h', m') \<Longrightarrow>
   BackendNodeMap m' = foldl (addBackend h) (BackendNodeMap m) (filter (survives h) els)"
proof (induction els arbitrary: i h m)
  case Nil
  then show ?case by simp
next
  case (Cons a els)
  have a: "a < length h" "a \<notin> set els" "distinct els" using Cons.prems by auto
  show ?case
  proof (cases "survives h a")
    case True
    let ?e = "indexed p (PreviousNodeIDs m) i (h ! a)"
    let ?h = "h[a := ?e]"
    let ?m = "AddEnhanced ?h m a"
    have run: "extractLoop p els (i + 1, ?h, ?m) = (i', h', m')"
      using Cons.prems(3) extractStep_survives[OF a(1) True] by simp
    have bnd: "\<forall>b\<in>set els. b < length ?h" using Cons.prems(2) by simp
    have f: "filter (survives ?h) els = filter (survives h) els"
      using a(2) by (rule filter_survives_update)
    have same: "BackendNodeID (?h ! b) = BackendNodeID (h ! b)" for b
      using a(1) by (cases "b = a") (simp_all add: indexed_fields)
    have "BackendNodeMap m' = foldl (addBackend ?h) (BackendNodeMap ?m) (filter (survives h) els)"
      using Cons.IH[OF a(3) bnd run] f by simp
    also have "\<dots> = foldl (addBackend h) (BackendNodeMap ?m) (filter (survives h) els)"
      by (rule foldl_addBackend_cong) (simp add: same)
    also have "BackendNodeMap ?m = addBackend h (BackendNodeMap m) a"
      by (simp add: AddEnhanced_fields addBackend_cong[OF same])
    finally show ?thesis using True by simp
  next
    case False
    from extractStep_filtered[OF False, of p i m] obtain m1 where
      m1: "extractStep p a (i, h, m) = (i, h, m1)" "BackendNodeMap m1 = BackendNodeMap m"
      by blast
    have run: "extractLoop p els (i, h, m1) = (i', h', m')"
      using Cons.prems(3) m1(1) by simp
    have bnd: "\<forall>b\<in>set els. b < length h" using Cons.prems(2) by simp
    show ?thesis using Cons.IH[OF a(3) bnd run] False m1 by simp
  qed
qed

lemma wrapLoop_result:
  "wrapLoop els (h, m) = (h', m') \<Longrightarrow>
   h' = h @ map wrapBasic els \<and>
   Elements m' = Elements m @ [length h..<length h + length els] \<and>
   BackendNodeMap m' = foldl (addBackend h') (BackendNodeMap m) [length h..<length h + length els] \<and>
   TotalElements m' = TotalElements m \<and> FilteredByHidden m' = FilteredByHidden m \<and>
   FilteredByPaint m' = FilteredByPaint m \<and> FilteredByContain m' = FilteredByContain m"
proof (induction els arbitrary: h m)
  case Nil
  then show ?case by simp
next
  case (Cons e els)
  let ?h = "h @ [wrapBasic e]"
  let ?m = "AddEnhanced ?h m (length h)"
  have run: "wrapLoop els (?h, ?m) = (h', m')" using Cons.prems by (simp add: Let_def)
  note IH = Cons.IH[OF run]
  have h': "h' = h @ wrapBasic e # map wrapBasic els" using IH by simp
  have same: "BackendNodeID (h' ! length h) = BackendNodeID (?h ! length h)"
    using h' by (simp add: nth_append)
  have eq: "[length h..<length h + length (e # els)] = length h # [Suc (length h)..<Suc (length h) + length els]"
    by (subst upt_conv_Cons) simp_all
  have "BackendNodeMap m' = foldl (addBackend h') (addBackend ?h (BackendNodeMap m) (length h))
          [Suc (length h)..<Suc (length h) + length els]"
    using IH by (simp add: AddEnhanced_fields)
  then have bm: "BackendNodeMap m' = foldl (addBackend h') (BackendNodeMap m) [length h..<length h + length (e # els)]"
    unfolding eq using addBackend_cong[OF same] by simp
  have el: "Elements m' = Elements m @ [length h..<length h + length (e # els)]"
    unfolding eq using IH by (simp add: AddEnhanced_fields)
  have st: "TotalElements m' = TotalElements m \<and> FilteredByHidden m' = FilteredByHidden m \<and>
   FilteredByPaint m' = FilteredByPaint m \<and> FilteredByContain m' = FilteredByContain m"
    using IH by (simp add: AddEnhanced_def)
  have h'': "h' = h @ map wrapBasic (e # els)" using h' by simp
  show ?case using h'' bm el st by blast
qed

lemma Extract_unfold:
  "ExtractEnhancedElementMap info previousMap snapshotErr parsed basic =
     (if snapshotErr \<noteq> None then extractEnhancedElementMapJS basic (initialMap info previousMap)
      else case parsed of
             Inl err \<Rightarrow> extractEnhancedElementMapJS basic (initialMap info previousMap)
           | Inr elements \<Rightarrow>
               (case extractLoop (previousMap \<noteq> None) [0..<length elements]
                       (0, elements, initialMap info previousMap) of
                  (index, h, m) \<Rightarrow> Inr (h, m\<lparr>TotalElements := int (length elements)\<rparr>)))"
  unfolding ExtractEnhancedElementMap_def initialMap_def Let_def by (rule refl)

lemma initialMap_fields:
  "Elements (initialMap info previousMap) = []"
  "BackendNodeMap (initialMap info previousMap) = Map.empty"
  "TotalElements (initialMap info previousMap) = 0"
  "FilteredByHidden (initialMap info previousMap) = 0"
  "FilteredByPaint (initialMap info previousMap) = 0"
  "FilteredByContain (initialMap info previousMap) = 0"
  "filtered (initialMap info previousMap) = 0"
  by (simp_all add: initialMap_def NewEnhancedElementMap_def filtered_def Let_def
        split: option.splits prod.splits)

lemma initialMap_previous:
  "PreviousNodeIDs (initialMap info previousMap) nodeID = None \<longleftrightarrow>
     (case previousMap of None \<Rightarrow> True | Some prev \<Rightarrow> BackendNodeMap prev nodeID = None)"
  by (simp add: initialMap_def NewEnhancedElementMap_def Let_def split: option.splits prod.splits)

lemma extract_parsed:
  assumes "ExtractEnhancedElementMap info previousMap None (Inr elements) basic = Inr (h, m)"
  shows "\<exists>i m1. extractLoop (previousMap \<noteq> None) [0..<length elements]
                  (0, elements, initialMap info previousMap) = (i, h, m1) \<and>
           m = m1\<lparr>TotalElements := int (length elements)\<rparr>"
  using assms by (auto simp: Extract_unfold split: prod.splits)

lemma extract_parsed_total:
  "\<exists>h m. ExtractEnhancedElementMap info previousMap None (Inr elements) basic = Inr (h, m)"
  by (simp add: Extract_unfold split: prod.splits)

lemma extract_fallback:
  assumes "ExtractEnhancedElementMap info previousMap snapshotErr parsed basic = Inr (h, m)"
      and "snapshotErr \<noteq> None \<or> (\<exists>err. parsed = Inl err)"
  shows "\<exists>basicMap m0. basic = Inr basicMap \<and> wrapLoop (basicElements basicMap) ([], m0) = (h, m) \<and>
           Elements m0 = [] \<and> BackendNodeMap m0 = Map.empty \<and> TotalElements m0 = 0 \<and>
           FilteredByHidden m0 = 0 \<and> FilteredByPaint m0 = 0 \<and> FilteredByContain m0 = 0"
proof -
  have "extractEnhancedElementMapJS basic (initialMap info previousMap) = Inr (h, m)"
    using assms by (auto simp: Extract_unfold split: if_splits)
  then obtain basicMap where b: "basic = Inr basicMap"
    and w: "wrapLoop (basicElements basicMap)
              ([], (initialMap info previousMap)\<lparr>PageURL := basicPageURL basicMap,
                     PageTitle := basicPageTitle basicMap\<rparr>) = (h, m)"
    by (auto simp: extractEnhancedElementMapJS_def split: sum.splits)
  show ?thesis
    by (rule exI[of _ basicMap], rule exI, intro conjI, rule b, rule w)
       (simp_all add: initialMap_fields)
qed

lemma extractLoop_cells:
  assumes "extractLoop p [0..<length h] (0, h, m) = (i', h', m')"
  shows "length h' = length h"
    and "Elements m' = Elements m @ filter (survives h) [0..<length h]"
    and "a \<in> set (filter (survives h) [0..<length h]) \<Longrightarrow>
           \<exists>i. h' ! a = indexed p (PreviousNodeIDs m) i (h ! a)"
    and "a \<notin> set (filter (survives h) [0..<length h]) \<Longrightarrow> h' ! a = h ! a"
    and "k < length (filter (survives h) [0..<length h]) \<Longrightarrow>
           h' ! (filter (survives h) [0..<length h] ! k) =
           indexed p (PreviousNodeIDs m) (int k) (h ! (filter (survives h) [0..<length h] ! k))"
    and "filtered m' + int (length (filter (survives h) [0..<length h])) = filtered m + int (length h)"
proof -
  have d: "distinct [0..<length h]" and b: "\<forall>a\<in>set [0..<length h]. a < length h" by simp_all
  note r = extractLoop_result[OF d b assms]
  show "length h' = length h" using r by blast
  show "Elements m' = Elements m @ filter (survives h) [0..<length h]" using r by blast
  show "a \<notin> set (filter (survives h) [0..<length h]) \<Longrightarrow> h' ! a = h ! a" using r by blast
  show c: "k < length (filter (survives h) [0..<length h]) \<Longrightarrow>
           h' ! (filter (survives h) [0..<length h] ! k) =
           indexed p (PreviousNodeIDs m) (int k) (h ! (filter (survives h) [0..<length h] ! k))" for k
    using r by simp
  show "filtered m' + int (length (filter (survives h) [0..<length h])) = filtered m + int (length h)"
    using r by simp
  show "a \<in> set (filter (survives h) [0..<length h]) \<Longrightarrow>
           \<exists>i. h' ! a = indexed p (PreviousNodeIDs m) i (h ! a)"
  proof -
    assume "a \<in> set (filter (survives h) [0..<length h])"
    then obtain k where "k < length (filter (survives h) [0..<length h])"
      and "filter (survives h) [0..<length h] ! k = a"
      unfolding in_set_conv_nth by blast
    then show ?thesis using c[of k] by auto
  qed
qed

lemma extractLoop_same_id:
  assumes "extractLoop p [0..<length h] (0, h, m) = (i', h', m')"
  shows "BackendNodeID (h' ! a) = BackendNodeID (h ! a)"
proof (cases "a \<in> set (filter (survives h) [0..<length h])")
  case True
  then show ?thesis using extractLoop_cells(3)[OF assms, of a] by (auto simp: indexed_fields)
next
  case False
  then show ?thesis using extractLoop_cells(4)[OF assms, of a] by simp
qed

text \<open>
  Claim C1. Extraction from a successfully parsed snapshot (no snapshot error, the parser
  returned \<open>elements\<close>) always returns a map, and in it the element at position \<open>k\<close>
  of the ordered list has index \<open>k\<close>, so that the indices are \<open>0, 1, 2, \<dots>\<close>
  without gaps; it is interactive and visible and neither occluded nor contained.
\<close>

theorem extract_index_is_position:
  "\<exists>h m. ExtractEnhancedElementMap info previousMap None (Inr elements) basic = Inr (h, m) \<and>
     (\<forall>k<length (Elements m).
        Elements m ! k < length h \<and>
        Index (h ! (Elements m ! k)) = int k \<and>
        \<not> IsOccluded (h ! (Elements m ! k)) \<and> \<not> IsContained (h ! (Elements m ! k)) \<and>
        IsInteractive (h ! (Elements m ! k)) \<and> IsVisible (h ! (Elements m ! k)))"
proof -
  obtain h m where r: "ExtractEnhancedElementMap info previousMap None (Inr elements) basic = Inr (h, m)"
    using extract_parsed_total by blast
  from extract_parsed[OF r] obtain i m1 where
    run: "extractLoop (previousMap \<noteq> None) [0..<length elements]
            (0, elements, initialMap info previousMap) = (i, h, m1)"
    and m: "m = m1\<lparr>TotalElements := int (length elements)\<rparr>" by blast
  let ?F = "filter (survives elements) [0..<length elements]"
  have el: "Elements m = ?F"
    using extractLoop_cells(2)[OF run] m by (simp add: initialMap_fields)
  have len: "length h = length elements" using extractLoop_cells(1)[OF run] .
  have "\<forall>k<length (Elements m).
        Elements m ! k < length h \<and>
        Index (h ! (Elements m ! k)) = int k \<and>
        \<not> IsOccluded (h ! (Elements m ! k)) \<and> \<not> IsContained (h ! (Elements m ! k)) \<and>
        IsInteractive (h ! (Elements m ! k)) \<and> IsVisible (h ! (Elements m ! k))"
  proof (intro allI impI)
    fix k assume "k < length (Elements m)"
    then have k: "k < length ?F" using el by simp
    then have mem: "?F ! k \<in> set ?F" by (rule nth_mem)
    then have s: "survives elements (?F ! k)" and bound: "?F ! k < length elements" by auto
    have cell: "h ! (?F ! k) = indexed (previousMap \<noteq> None)
                   (PreviousNodeIDs (initialMap info previousMap)) (int k) (elements ! (?F ! k))"
      using extractLoop_cells(5)[OF run k] .
    show "Elements m ! k < length h \<and>
        Index (h ! (Elements m ! k)) = int k \<and>
        \<not> IsOccluded (h ! (Elements m ! k)) \<and> \<not> IsContained (h ! (Elements m ! k)) \<and>
        IsInteractive (h ! (Elements m ! k)) \<and> IsVisible (h ! (Elements m ! k))"
      unfolding el cell using s bound len by (simp add: indexed_fields survives_def)
  qed
  with r show ?thesis by blast
qed

lemma wrapLoop_cells:
  assumes "wrapLoop els ([], m0) = (h, m)"
  shows "h = map wrapBasic els" and "Elements m = Elements m0 @ [0..<length els]"
    and "BackendNodeMap m = foldl (addBackend h) (BackendNodeMap m0) [0..<length els]"
    and "TotalElements m = TotalElements m0" and "FilteredByHidden m = FilteredByHidden m0"
    and "FilteredByPaint m = FilteredByPaint m0" and "FilteredByContain m = FilteredByContain m0"
  using wrapLoop_result[OF assms] by simp_all

lemma wrapBasic_fields:
  "IsNew (wrapBasic e) = False" "BackendNodeID (wrapBasic e) = Element_BackendNodeID e"
  by (simp_all add: wrapBasic_def)

text \<open>
  Claim C5, amended. For every element \<open>e\<close> of a returned map, \<open>e.isNew\<close> is true
  if and only if the map was built from a successfully parsed snapshot, a prior map
  \<open>M1\<close> was supplied and \<open>e.backendNodeId\<close> is not a key of
  \<open>M1.backendNodeMap\<close>; in a map built by the JavaScript fallback no element is new.
  In particular \<open>isNew\<close> is never true when no prior map was supplied. The parser
  leaves \<open>IsNew\<close> at its zero value in every element it builds, which is the third
  assumption.
\<close>

theorem isNew_iff_snapshot_and_absent:
  assumes r: "ExtractEnhancedElementMap info previousMap snapshotErr parsed basic = Inr (h, m)"
      and k: "k < length (Elements m)"
      and fresh: "\<forall>elements. parsed = Inr elements \<longrightarrow> (\<forall>e\<in>set elements. \<not> IsNew e)"
  shows "IsNew (h ! (Elements m ! k)) \<longleftrightarrow>
           snapshotErr = None \<and> (\<exists>elements. parsed = Inr elements) \<and>
           (\<exists>M1. previousMap = Some M1 \<and>
                 BackendNodeMap M1 (BackendNodeID (h ! (Elements m ! k))) = None)"
proof (cases "snapshotErr = None \<and> (\<exists>elements. parsed = Inr elements)")
  case True
  then obtain elements where s: "snapshotErr = None" and p: "parsed = Inr elements" by blast
  from extract_parsed[OF r[unfolded s p]] obtain i m1 where
    run: "extractLoop (previousMap \<noteq> None) [0..<length elements]
            (0, elements, initialMap info previousMap) = (i, h, m1)"
    and m: "m = m1\<lparr>TotalElements := int (length elements)\<rparr>" by blast
  let ?F = "filter (survives elements) [0..<length elements]"
  have el: "Elements m = ?F"
    using extractLoop_cells(2)[OF run] m by (simp add: initialMap_fields)
  have kF: "k < length ?F" using k el by simp
  then have "?F ! k \<in> set ?F" by (rule nth_mem)
  then have "?F ! k < length elements" by simp
  then have "elements ! (?F ! k) \<in> set elements" by simp
  then have old: "\<not> IsNew (elements ! (?F ! k))" using fresh p by blast
  have cell: "h ! (?F ! k) = indexed (previousMap \<noteq> None)
                 (PreviousNodeIDs (initialMap info previousMap)) (int k) (elements ! (?F ! k))"
    using extractLoop_cells(5)[OF run kF] .
  show ?thesis
    unfolding el cell using old s p
    by (cases previousMap) (simp_all add: indexed_fields initialMap_previous)
next
  case False
  then have fb: "snapshotErr \<noteq> None \<or> (\<exists>err. parsed = Inl err)" by (cases parsed) auto
  from extract_fallback[OF r fb] obtain basicMap :: ElementMap and m0 where
    w: "wrapLoop (basicElements basicMap) ([], m0) = (h, m)" and e0: "Elements m0 = []" by blast
  have h: "h = map wrapBasic (basicElements basicMap)" using wrapLoop_cells(1)[OF w] .
  have el: "Elements m = [0..<length (basicElements basicMap)]"
    using wrapLoop_cells(2)[OF w] e0 by simp
  have "\<not> IsNew (h ! (Elements m ! k))" using k unfolding el h by (simp add: wrapBasic_fields)
  then show ?thesis using False by blast
qed

text \<open>
  Claim C6, amended. In a map returned from a successfully parsed snapshot the number of
  elements plus \<open>filteredByHidden\<close>, \<open>filteredByPaint\<close> and
  \<open>filteredByContain\<close> equals \<open>totalElements\<close>, which is the number of
  candidates the parser returned. In a map returned by the JavaScript fallback all four
  statistics are 0 and the map holds as many elements as the fallback extraction found.
\<close>

theorem statistics_sum_on_snapshot_path:
  assumes r: "ExtractEnhancedElementMap info previousMap snapshotErr parsed basic = Inr (h, m)"
  shows "(snapshotErr = None \<and> parsed = Inr elements \<longrightarrow>
            int (length (Elements m)) + FilteredByHidden m + FilteredByPaint m + FilteredByContain m
              = TotalElements m \<and>
            TotalElements m = int (length elements)) \<and>
         (snapshotErr \<noteq> None \<or> (\<exists>err. parsed = Inl err) \<longrightarrow>
            TotalElements m = 0 \<and> FilteredByHidden m = 0 \<and> FilteredByPaint m = 0 \<and>
            FilteredByContain m = 0 \<and>
            (\<exists>basicMap. basic = Inr basicMap \<and> length (Elements m) = length (basicElements basicMap)))"
proof (rule conjI; rule impI)
  assume "snapshotErr = None \<and> parsed = Inr elements"
  then have s: "snapshotErr = None" and p: "parsed = Inr elements" by simp_all
  from extract_parsed[OF r[unfolded s p]] obtain i m1 where
    run: "extractLoop (previousMap \<noteq> None) [0..<length elements]
            (0, elements, initialMap info previousMap) = (i, h, m1)"
    and m: "m = m1\<lparr>TotalElements := int (length elements)\<rparr>" by blast
  have "Elements m1 = filter (survives elements) [0..<length elements]"
    using extractLoop_cells(2)[OF run] by (simp add: initialMap_fields)
  moreover have "filtered m1 + int (length (filter (survives elements) [0..<length elements]))
                  = int (length elements)"
    using extractLoop_cells(6)[OF run] by (simp add: initialMap_fields)
  ultimately show "int (length (Elements m)) + FilteredByHidden m + FilteredByPaint m + FilteredByContain m
              = TotalElements m \<and> TotalElements m = int (length elements)"
    using m by (simp add: filtered_def)
next
  assume fb: "snapshotErr \<noteq> None \<or> (\<exists>err. parsed = Inl err)"
  from extract_fallback[OF r fb] obtain basicMap :: ElementMap and m0 where
    b: "basic = Inr basicMap" and
    w: "wrapLoop (basicElements basicMap) ([], m0) = (h, m)" and e0: "Elements m0 = []"
    and z: "TotalElements m0 = 0" "FilteredByHidden m0 = 0" "FilteredByPaint m0 = 0"
           "FilteredByContain m0 = 0" by blast
  have "length (Elements m) = length (basicElements basicMap)"
    using wrapLoop_cells(2)[OF w] e0 by simp
  then show "TotalElements m = 0 \<and> FilteredByHidden m = 0 \<and> FilteredByPaint m = 0 \<and>
            FilteredByContain m = 0 \<and>
            (\<exists>basicMap. basic = Inr basicMap \<and> length (Elements m) = length (basicElements basicMap))"
    using wrapLoop_cells(4-7)[OF w] z b by simp
qed

lemma extract_backend_fold:
  assumes r: "ExtractEnhancedElementMap info previousMap snapshotErr parsed basic = Inr (h, m)"
  shows "BackendNodeMap m = foldl (addBackend h) Map.empty (Elements m)"
proof (cases "snapshotErr = None \<and> (\<exists>elements. parsed = Inr elements)")
  case True
  then obtain elements where s: "snapshotErr = None" and p: "parsed = Inr elements" by blast
  from extract_parsed[OF r[unfolded s p]] obtain i m1 where
    run: "extractLoop (previousMap \<noteq> None) [0..<length elements]
            (0, elements, initialMap info previousMap) = (i, h, m1)"
    and m: "m = m1\<lparr>TotalElements := int (length elements)\<rparr>" by blast
  let ?F = "filter (survives elements) [0..<length elements]"
  have el: "Elements m = ?F"
    using extractLoop_cells(2)[OF run] m by (simp add: initialMap_fields)
  have "BackendNodeMap m1 = foldl (addBackend elements) Map.empty ?F"
    using extractLoop_backend[OF _ _ run] by (simp add: initialMap_fields)
  also have "\<dots> = foldl (addBackend h) Map.empty ?F"
    by (rule foldl_addBackend_cong[symmetric]) (simp add: extractLoop_same_id[OF run])
  finally show ?thesis using el m by simp
next
  case False
  then have fb: "snapshotErr \<noteq> None \<or> (\<exists>err. parsed = Inl err)" by (cases parsed) auto
  from extract_fallback[OF r fb] obtain basicMap :: ElementMap and m0 where
    w: "wrapLoop (basicElements basicMap) ([], m0) = (h, m)" and e0: "Elements m0 = []"
    and b0: "BackendNodeMap m0 = Map.empty" by blast
  show ?thesis using wrapLoop_cells(2,3)[OF w] e0 b0 by simp
qed

text \<open>
  Claim C7, amended. For every returned map and every element \<open>e\<close> in it with
  \<open>backendNodeId > 0\<close>, the backend-node table maps \<open>e.backendNodeId\<close> to
  \<open>e\<close> itself provided no element later in the list carries the same backend node id:
  among several elements with one id, the last one added owns the entry.
\<close>

theorem backend_lookup_last_wins:
  assumes r: "ExtractEnhancedElementMap info previousMap snapshotErr parsed basic = Inr (h, m)"
      and k: "k < length (Elements m)"
      and pos: "0 < BackendNodeID (h ! (Elements m ! k))"
      and last: "\<forall>k'. k < k' \<and> k' < length (Elements m) \<longrightarrow>
                   BackendNodeID (h ! (Elements m ! k')) \<noteq> BackendNodeID (h ! (Elements m ! k))"
  shows "BackendNodeMap m (BackendNodeID (h ! (Elements m ! k))) = Some (Elements m ! k)"
  unfolding extract_backend_fold[OF r]
  using k pos last by (rule foldl_addBackend_last)

lemmas example_defs =
  ExtractEnhancedElementMap_def extractEnhancedElementMapJS_def extractStep_def AddEnhanced_def
  NewEnhancedElementMap_def wrapBasic_def exampleHidden_def exampleLink_def exampleButton_def
  exampleFresh_def examplePrevious_def exampleBasic_def Let_def upt_rec

text \<open>
  Witness for C1: of three candidates, one hidden, the two visible ones get the indices
  \<open>0\<close> and \<open>1\<close>.
\<close>

theorem extract_index_is_position_witness:
  "\<exists>h m. filteredRun = Inr (h, m) \<and> length (Elements m) = 2 \<and>
     Index (h ! (Elements m ! 0)) = 0 \<and> Index (h ! (Elements m ! 1)) = 1 \<and>
     IsVisible (h ! (Elements m ! 0)) \<and> IsVisible (h ! (Elements m ! 1))"
proof -
  obtain h m where r: "filteredRun = Inr (h, m)"
    and p: "\<forall>k<length (Elements m).
        Elements m ! k < length h \<and>
        Index (h ! (Elements m ! k)) = int k \<and>
        \<not> IsOccluded (h ! (Elements m ! k)) \<and> \<not> IsContained (h ! (Elements m ! k)) \<and>
        IsInteractive (h ! (Elements m ! k)) \<and> IsVisible (h ! (Elements m ! k))"
    unfolding filteredRun_def
    using extract_index_is_position[of None None "[exampleHidden, exampleLink, exampleButton]" "Inl (Error [])"]
    by blast
  have len: "length (Elements m) = 2"
    using r by (auto simp: filteredRun_def example_defs)
  have "0 < length (Elements m)" and "1 < length (Elements m)" using len by simp_all
  then have "Index (h ! (Elements m ! 0)) = 0 \<and> IsVisible (h ! (Elements m ! 0))"
    and "Index (h ! (Elements m ! 1)) = 1 \<and> IsVisible (h ! (Elements m ! 1))"
    using p by force+
  then show ?thesis using r len by blast
qed

text \<open>
  Witness for C5: against a prior map that knows backend node 7, the element with id 7 is not
  new and the element with id 9 is.
\<close>

theorem isNew_iff_snapshot_and_absent_witness:
  "\<exists>h m. diffRun = Inr (h, m) \<and> length (Elements m) = 2 \<and>
     BackendNodeID (h ! (Elements m ! 0)) = 7 \<and> \<not> IsNew (h ! (Elements m ! 0)) \<and>
     BackendNodeID (h ! (Elements m ! 1)) = 9 \<and> IsNew (h ! (Elements m ! 1))"
proof -
  obtain h m where r: "diffRun = Inr (h, m)"
    unfolding diffRun_def
    using extract_parsed_total[of None "Some examplePrevious" "[exampleLink, exampleFresh]" "Inl (Error [])"]
    by blast
  have ev: "length (Elements m) = 2" "BackendNodeID (h ! (Elements m ! 0)) = 7"
    "BackendNodeID (h ! (Elements m ! 1)) = 9"
    using r by (auto simp: diffRun_def example_defs)
  have fresh: "\<forall>elements. (Inr [exampleLink, exampleFresh] :: error + EnhancedElement list) = Inr elements \<longrightarrow>
                 (\<forall>e\<in>set elements. \<not> IsNew e)"
    by (simp add: example_defs)
  have k0: "0 < length (Elements m)" and k1: "1 < length (Elements m)" using ev by simp_all
  have "\<not> IsNew (h ! (Elements m ! 0))"
    using isNew_iff_snapshot_and_absent[OF r[unfolded diffRun_def] k0 fresh] ev
    by (simp add: examplePrevious_def)
  moreover have "IsNew (h ! (Elements m ! 1))"
    using isNew_iff_snapshot_and_absent[OF r[unfolded diffRun_def] k1 fresh] ev
    by (simp add: examplePrevious_def)
  ultimately show ?thesis using r ev by blast
qed

text \<open>
  Counterexample to C5 as stated: on the fallback path a prior map (with no keys) was
  supplied and the element's backend node id 5 is not a key of it, yet the element is not
  marked new.
\<close>

theorem isNew_fallback_counterexample:
  "\<not> isl fallbackRun \<and> Elements (snd (projr fallbackRun)) = [0] \<and>
   BackendNodeID (fst (projr fallbackRun) ! 0) = 5 \<and>
   BackendNodeMap NewEnhancedElementMap 5 = None \<and>
   \<not> IsNew (fst (projr fallbackRun) ! 0)"
  by (simp add: fallbackRun_def example_defs)

text \<open>
  Witness for C6: three candidates, one hidden; two elements plus one filtered is three.
\<close>

theorem statistics_sum_on_snapshot_path_witness:
  "\<exists>h m. filteredRun = Inr (h, m) \<and> length (Elements m) = 2 \<and> FilteredByHidden m = 1 \<and>
     int (length (Elements m)) + FilteredByHidden m + FilteredByPaint m + FilteredByContain m = 3 \<and>
     TotalElements m = 3"
proof -
  obtain h m where r: "filteredRun = Inr (h, m)"
    unfolding filteredRun_def
    using extract_parsed_total[of None None "[exampleHidden, exampleLink, exampleButton]" "Inl (Error [])"]
    by blast
  have ev: "length (Elements m) = 2" "FilteredByHidden m = 1"
    using r by (auto simp: filteredRun_def example_defs)
  have "int (length (Elements m)) + FilteredByHidden m + FilteredByPaint m + FilteredByContain m
          = TotalElements m \<and>
        TotalElements m = int (length [exampleHidden, exampleLink, exampleButton])"
    using statistics_sum_on_snapshot_path[OF r[unfolded filteredRun_def],
            of "[exampleHidden, exampleLink, exampleButton]"] by simp
  then have "int (length (Elements m)) + FilteredByHidden m + FilteredByPaint m + FilteredByContain m = 3"
    and "TotalElements m = 3" by simp_all
  then show ?thesis using r ev by blast
qed

text \<open>
  Counterexample to C6 as stated: the map returned on the fallback path holds one element,
  its three counters are 0, and its \<open>totalElements\<close> is 0.
\<close>

theorem statistics_fallback_counterexample:
  "\<not> isl fallbackRun \<and>
   int (length (Elements (snd (projr fallbackRun)))) + FilteredByHidden (snd (projr fallbackRun)) +
     FilteredByPaint (snd (projr fallbackRun)) + FilteredByContain (snd (projr fallbackRun)) = 1 \<and>
   TotalElements (snd (projr fallbackRun)) = 0"
  by (simp add: fallbackRun_def example_defs)

text \<open>
  Witness for C7: of two elements with backend node id 7 the second one is the table's entry
  for 7.
\<close>

theorem backend_lookup_last_wins_witness:
  "\<exists>h m. duplicateRun = Inr (h, m) \<and> length (Elements m) = 2 \<and>
     BackendNodeID (h ! (Elements m ! 1)) = 7 \<and>
     BackendNodeMap m 7 = Some (Elements m ! 1)"
proof -
  obtain h m where r: "duplicateRun = Inr (h, m)"
    unfolding duplicateRun_def
    using extract_parsed_total[of None None "[exampleLink, exampleButton]" "Inl (Error [])"]
    by blast
  have ev: "length (Elements m) = 2" "BackendNodeID (h ! (Elements m ! 1)) = 7"
    using r by (auto simp: duplicateRun_def example_defs)
  have k: "1 < length (Elements m)" and pos: "0 < BackendNodeID (h ! (Elements m ! 1))"
    and last: "\<forall>k'. 1 < k' \<and> k' < length (Elements m) \<longrightarrow>
                 BackendNodeID (h ! (Elements m ! k')) \<noteq> BackendNodeID (h ! (Elements m ! 1))"
    using ev by simp_all
  have "BackendNodeMap m (BackendNodeID (h ! (Elements m ! 1))) = Some (Elements m ! 1)"
    by (rule backend_lookup_last_wins[OF r[unfolded duplicateRun_def] k pos last])
  then show ?thesis using r ev by auto
qed

text \<open>
  Counterexample to C7 as stated: two candidates carry backend node id 7 and both are in the
  map; the element at position 0 has id 7, and the table maps 7 to the element at position 1.
\<close>

theorem backend_lookup_duplicate_counterexample:
  "\<not> isl duplicateRun \<and> Elements (snd (projr duplicateRun)) = [0, 1] \<and>
   BackendNodeID (fst (projr duplicateRun) ! 0) = 7 \<and>
   BackendNodeMap (snd (projr duplicateRun)) 7 = Some 1"
  by (simp add: duplicateRun_def example_defs)

section \<open>Properties of the attribute lookup\<close>

lemma getAttr_absent:
  "\<not> carriesAttr stringsArr attributes i attrName \<Longrightarrow> getAttr stringsArr attributes i attrName = []"
proof -
  have "\<not> carries stringsArr attrName attrs \<Longrightarrow> attrScan stringsArr attrName attrs = []" for attrs
    by (induction stringsArr attrName attrs rule: attrScan.induct) auto
  then show "\<not> carriesAttr stringsArr attributes i attrName \<Longrightarrow> getAttr stringsArr attributes i attrName = []"
    by (auto simp: getAttr_def carriesAttr_def)
qed

text \<open>
  Claim C4, evaluated where the code departs from it. The parser tests for the attribute with
  \<open>getAttr(i, "disabled") == ""\<close>, and \<open>getAttr\<close> returns the empty string both
  for a missing attribute and for one whose value is empty. The node of
  \<open><button disabled>\<close> carries the attribute \<open>disabled\<close> with the empty value, and
  its \<open>isEnabled\<close> is true.
\<close>

theorem isEnabled_true_for_disabled_button:
  "carriesAttr disabledButtonStrings disabledButtonAttributes 0 ''disabled'' \<and>
   getAttr disabledButtonStrings disabledButtonAttributes 0 ''disabled'' = [] \<and>
   isEnabled disabledButtonStrings disabledButtonAttributes 0"
  by (simp add: carriesAttr_def isEnabled_def getAttr_def disabledButtonStrings_def
        disabledButtonAttributes_def)

section \<open>Properties of the annotation\<close>

















text \<open>
  Claim C9. Whatever the image bytes, the configuration and the behaviour of the decoder and
  the encoders, \<open>Annotate\<close> returns the input bytes and no error when the element map
  is nil or its \<open>Len()\<close> is 0.
\<close>

theorem annotate_empty_map_returns_input:
  "elementMap = None \<or> (\<exists>em. elementMap = Some em \<and> Len em = 0) \<Longrightarrow>
   Annotate decode encodePng encodeJpeg imgData elementMap cfg = Inr imgData"
  by (auto simp: Annotate_def)

text \<open>
  Witness for C9: a nil map and a map without elements, with a decoder that would fail.
\<close>

theorem annotate_empty_map_returns_input_witness:
  "Annotate failingDecode failingEncode failingEncode [137, 80, 78, 71] None DefaultAnnotationConfig
     = Inr [137, 80, 78, 71] \<and>
   Len emptyElementMap = 0 \<and>
   Annotate failingDecode failingEncode failingEncode [137, 80, 78, 71] (Some emptyElementMap)
     DefaultAnnotationConfig = Inr [137, 80, 78, 71]"
proof -
  have nil: "(None :: ElementMapInterface option) = None \<or>
             (\<exists>em. (None :: ElementMapInterface option) = Some em \<and> Len em = 0)" by simp
  have len: "Len emptyElementMap = 0" by (simp add: emptyElementMap_def)
  then have empty: "Some emptyElementMap = None \<or>
                    (\<exists>em. Some emptyElementMap = Some em \<and> Len em = 0)" by simp
  show ?thesis
    using annotate_empty_map_returns_input[OF nil] annotate_empty_map_returns_input[OF empty] len
    by simp
qed






section \<open>Properties of the token serialization\<close>

lemma countVisible_filter:
  "countVisible h els c = c + int (length (filter (\<lambda>el. IsVisible (h ! el)) els))"
  by (induction els arbitrary: c) simp_all

lemma emitEntries_take:
  "0 < maxElements \<Longrightarrow> count \<le> maxElements \<Longrightarrow>
   emitEntries h m maxElements els count =
     map (formatEntry h m) (take (nat (maxElements - count)) (filter (\<lambda>el. IsVisible (h ! el)) els))"
proof (induction els arbitrary: count)
  case Nil
  then show ?case by simp
next
  case (Cons el els)
  show ?case
  proof (cases "IsVisible (h ! el)")
    case False
    then show ?thesis using Cons by simp
  next
    case True
    show ?thesis
    proof (cases "count \<ge> maxElements")
      case True
      then have "nat (maxElements - count) = 0" by simp
      then show ?thesis using \<open>IsVisible (h ! el)\<close> True Cons.prems by simp
    next
      case False
      then have c: "count + 1 \<le> maxElements" by simp
      have "nat (maxElements - count) = Suc (nat (maxElements - (count + 1)))" using False by simp
      then show ?thesis
        using \<open>IsVisible (h ! el)\<close> False Cons.IH[OF Cons.prems(1) c] by simp
    qed
  qed
qed

text \<open>
  Claim C8, amended. For every element map and every \<open>maxElements > 0\<close> the
  serialization emits exactly the first \<open>maxElements\<close> visible entries (all of them
  when there are fewer), and its header line reads "Elements (maxElements of Y shown):", with
  \<open>Y\<close> the number of visible elements, exactly when \<open>Y\<close> exceeds
  \<open>maxElements\<close>; otherwise it reads "Elements (Y):".
\<close>

theorem token_string_limit_and_header:
  assumes "0 < maxElements"
  shows "ToTokenStringEnhanced h m maxElements =
           ''Page: '' @ PageTitle m @ newline @ ''URL: '' @ PageURL m @ newline
           @ (if int (length (visibleElements h m)) > maxElements
              then ''Elements ('' @ showInt maxElements @ '' of ''
                   @ showInt (int (length (visibleElements h m))) @ '' shown):'' @ newline
              else ''Elements ('' @ showInt (int (length (visibleElements h m))) @ ''):'' @ newline)
           @ concat (map (formatEntry h m) (take (nat maxElements) (visibleElements h m)))"
  using assms
  by (simp add: ToTokenStringEnhanced_def headerLine_def visibleElements_def
        countVisible_filter emitEntries_take)

text \<open>
  Witness for C8: three visible elements and \<open>maxElements = 2\<close>.
\<close>

theorem token_string_limit_and_header_witness:
  "ToTokenStringEnhanced threeElementHeap threeElementMap 2 =
     ''Page: '' @ newline @ ''URL: '' @ newline @ ''Elements (2 of 3 shown):'' @ newline
     @ ''[0] div'' @ newline @ ''[1] span'' @ newline"
proof -
  have v: "visibleElements threeElementHeap threeElementMap = [0, 1, 2]"
    by (simp add: visibleElements_def threeElementHeap_def threeElementMap_def
          unlabeledElement_def NewEnhancedElementMap_def)
  have e: "formatEntry threeElementHeap threeElementMap 0 = ''[0] div'' @ newline"
          "formatEntry threeElementHeap threeElementMap (Suc 0) = ''[1] span'' @ newline"
    by (simp_all add: formatEntry_def threeElementHeap_def threeElementMap_def
          unlabeledElement_def NewEnhancedElementMap_def showInt_def)
  have t: "take (nat 2) [0, 1, 2::nat] = [0, Suc 0]" by (simp add: numeral_2_eq_2)
  have s: "showInt 2 = ''2''" "showInt 3 = ''3''" by (simp_all add: showInt_def)
  have p: "PageTitle threeElementMap = []" "PageURL threeElementMap = []"
    by (simp_all add: threeElementMap_def NewEnhancedElementMap_def)
  have "ToTokenStringEnhanced threeElementHeap threeElementMap 2 =
           ''Page: '' @ PageTitle threeElementMap @ newline @ ''URL: '' @ PageURL threeElementMap @ newline
           @ (if int (length (visibleElements threeElementHeap threeElementMap)) > 2
              then ''Elements ('' @ showInt 2 @ '' of ''
                   @ showInt (int (length (visibleElements threeElementHeap threeElementMap))) @ '' shown):'' @ newline
              else ''Elements ('' @ showInt (int (length (visibleElements threeElementHeap threeElementMap))) @ ''):'' @ newline)
           @ concat (map (formatEntry threeElementHeap threeElementMap)
                        (take (nat 2) (visibleElements threeElementHeap threeElementMap)))"
    by (rule token_string_limit_and_header) simp
  also have "\<dots> = ''Page: '' @ newline @ ''URL: '' @ newline @ ''Elements (2 of 3 shown):'' @ newline
     @ ''[0] div'' @ newline @ ''[1] span'' @ newline"
    unfolding v t p by (simp add: e s del: showNat.simps)
  finally show ?thesis .
qed

text \<open>
  Counterexample to C8 as stated: with \<open>maxElements = 5\<close> and three visible elements
  the header is "Elements (3):", without "of" and "shown".
\<close>

theorem token_header_without_limit_hit_counterexample:
  "headerLine 5 (countVisible threeElementHeap (Elements threeElementMap) 0)
     = ''Elements (3):'' @ newline \<and>
   ToTokenStringEnhanced threeElementHeap threeElementMap 5 =
     ''Page: '' @ newline @ ''URL: '' @ newline @ ''Elements (3):'' @ newline
     @ ''[0] div'' @ newline @ ''[1] span'' @ newline @ ''[2] li'' @ newline"
  by (simp add: ToTokenStringEnhanced_def headerLine_def formatEntry_def threeElementHeap_def
        threeElementMap_def unlabeledElement_def NewEnhancedElementMap_def showInt_def)

end
